theory Spec2Isabelle
  imports
    Complex_Main
    "HOL-Library.Log_Nat"
    "HOL-Library.Multiset"
    "HOL-Library.AList"
    "HOL-Library.Product_Lexorder"
begin

section \<open>JavaScript numbers\<close>

text \<open>
  A JavaScript number is an IEEE 754 binary64 value.  \<open>Fin x\<close> is the finite double whose
  exact value is the rational \<open>x\<close>; \<open>PInf\<close>, \<open>NInf\<close> and \<open>NaN\<close> are \<open>Infinity\<close>,
  \<open>-Infinity\<close> and \<open>NaN\<close>.  The two zeros are identified: the program never divides by a
  computed value and prints numbers with \<open>JSON.stringify\<close> and template strings, which
  render \<open>-0\<close> as \<open>0\<close>.
\<close>

datatype number = Fin rat | PInf | NInf | NaN

text \<open>\<open>ilog2 x\<close> is the binary exponent of a positive rational: \<open>2^e \<le> x < 2^(e+1)\<close>.\<close>

definition ilog2 :: "rat \<Rightarrow> int" where
  "ilog2 x = (let (p, q) = quotient_of x; d = bitlen p - bitlen q
              in if 2 powi d \<le> x then d else d - 1)"

text \<open>Rounding to the nearest integer, ties to the even one.\<close>

definition rne :: "rat \<Rightarrow> int" where
  "rne x = (let n = \<lfloor>x\<rfloor>; r = x - of_int n in
     if r < 1 / 2 then n else if 1 / 2 < r then n + 1 else if even n then n else n + 1)"

text \<open>
  The exponent of the binade a value is rounded in: zero and the subnormal range share
  the exponent \<open>-1022\<close> of the smallest normal numbers.
\<close>

definition expo :: "rat \<Rightarrow> int" where
  "expo x = (if x = 0 then - 1022 else max (ilog2 \<bar>x\<bar>) (- 1022))"

definition ulp :: "rat \<Rightarrow> rat" where
  "ulp x = 2 powi (expo x - 52)"

text \<open>
  \<open>fl\<close> rounds an exact result to binary64: to the nearest multiple of the unit in the
  last place (53 significant bits), ties to even, and to an infinity when the rounded
  magnitude reaches \<open>2^1024\<close>.
\<close>

definition round_to_ulp :: "rat \<Rightarrow> rat" where
  "round_to_ulp x = of_int (rne (x / ulp x)) * ulp x"

definition fl :: "rat \<Rightarrow> number" where
  "fl x = (let r = round_to_ulp x in
     if ilog2 \<bar>r\<bar> < 1024 then Fin r else if 0 < r then PInf else NInf)"

text \<open>The smallest positive double; every finite double is a multiple of it.\<close>

definition min_subnormal :: rat where
  "min_subnormal = 2 powi (- 1074)"

text \<open>A finite value is a number of the language when rounding leaves it alone.\<close>

fun is_double :: "number \<Rightarrow> bool" where
  "is_double (Fin x) = (fl x = Fin x)"
| "is_double _ = True"

fun js_neg :: "number \<Rightarrow> number" where
  "js_neg (Fin x) = Fin (- x)"
| "js_neg PInf = NInf"
| "js_neg NInf = PInf"
| "js_neg NaN = NaN"

text \<open>The operator \<open>+\<close> on numbers.\<close>

fun js_add :: "number \<Rightarrow> number \<Rightarrow> number" where
  "js_add NaN _ = NaN"
| "js_add _ NaN = NaN"
| "js_add PInf NInf = NaN"
| "js_add NInf PInf = NaN"
| "js_add PInf _ = PInf"
| "js_add _ PInf = PInf"
| "js_add NInf _ = NInf"
| "js_add _ NInf = NInf"
| "js_add (Fin a) (Fin b) = fl (a + b)"

text \<open>The operator \<open>-\<close>: IEEE subtraction is addition of the negated operand.\<close>

definition js_sub :: "number \<Rightarrow> number \<Rightarrow> number" where
  "js_sub a b = js_add a (js_neg b)"

text \<open>The operator \<open>/\<close>; a zero divisor is taken as \<open>+0\<close>.\<close>

fun js_div :: "number \<Rightarrow> number \<Rightarrow> number" where
  "js_div NaN _ = NaN"
| "js_div _ NaN = NaN"
| "js_div (Fin a) (Fin b) =
     (if b = 0 then (if a = 0 then NaN else if 0 < a then PInf else NInf) else fl (a / b))"
| "js_div (Fin a) _ = Fin 0"
| "js_div PInf (Fin b) = (if 0 \<le> b then PInf else NInf)"
| "js_div NInf (Fin b) = (if 0 \<le> b then NInf else PInf)"
| "js_div _ _ = NaN"

text \<open>The value of a decimal literal of the source text, such as \<open>63.1\<close>.\<close>

definition js_lit :: "rat \<Rightarrow> number" where
  "js_lit q = fl q"

text \<open>
  How \<open>Array.prototype.sort\<close> reads the number its comparator returns: positive,
  negative, or neither (zero and \<open>NaN\<close>).
\<close>

fun is_positive :: "number \<Rightarrow> bool" where
  "is_positive (Fin x) = (0 < x)"
| "is_positive PInf = True"
| "is_positive _ = False"

fun is_negative :: "number \<Rightarrow> bool" where
  "is_negative (Fin x) = (x < 0)"
| "is_negative NInf = True"
| "is_negative _ = False"

section \<open>Objects used as dictionaries\<close>

text \<open>
  The own properties of a \<open>Record<string, T>\<close> are an association list in insertion
  order with distinct keys.  \<open>Object.entries\<close> lists the own properties, those whose keys
  are array indices first, in ascending numeric order, and then the others in insertion
  order.  Reading and writing a key follows the prototype chain; this is modelled with the
  join, which is where the program does it.
\<close>

definition is_digit :: "char \<Rightarrow> bool" where
  "is_digit c = (c \<in> set ''0123456789'')"

definition digit_val :: "char \<Rightarrow> nat" where
  "digit_val c = of_char c - (48::nat)"

definition dec_val :: "string \<Rightarrow> nat" where
  "dec_val s = foldl (\<lambda>a c. 10 * a + digit_val c) 0 s"

definition is_array_index :: "string \<Rightarrow> bool" where
  "is_array_index k =
     (k \<noteq> [] \<and> list_all is_digit k \<and> (k = ''0'' \<or> hd k \<noteq> CHR ''0'')
      \<and> length k \<le> 10 \<and> dec_val k \<le> 4294967294)"

definition Object_entries :: "(string \<times> 'v) list \<Rightarrow> (string \<times> 'v) list" where
  "Object_entries m =
     sort_key (\<lambda>kv. dec_val (fst kv)) (filter (\<lambda>kv. is_array_index (fst kv)) m)
     @ filter (\<lambda>kv. \<not> is_array_index (fst kv)) m"

section \<open>Sorting with a comparator\<close>

datatype js_failure = TypeError | UnspecifiedOrder

text \<open>
  ECMAScript fixes the result of \<open>sort\<close> only for a consistent comparator; the conditions
  are those of the language definition, over the values being sorted, where the comparator's
  result \<open>v\<close> is read as \<open>a <\<^sub>C\<^sub>F b\<close> when negative, \<open>a >\<^sub>C\<^sub>F b\<close> when positive and
  \<open>a =\<^sub>C\<^sub>F b\<close> otherwise.
\<close>

definition cf_eq :: "('a \<Rightarrow> 'a \<Rightarrow> number) \<Rightarrow> 'a \<Rightarrow> 'a \<Rightarrow> bool" where
  "cf_eq cmp a b = (\<not> is_positive (cmp a b) \<and> \<not> is_negative (cmp a b))"

definition consistent_comparator :: "('a \<Rightarrow> 'a \<Rightarrow> number) \<Rightarrow> 'a list \<Rightarrow> bool" where
  "consistent_comparator cmp xs =
     list_all (\<lambda>a. cf_eq cmp a a \<and>
       list_all (\<lambda>b. (cf_eq cmp a b \<longrightarrow> cf_eq cmp b a) \<and>
         list_all (\<lambda>c.
            (cf_eq cmp a b \<and> cf_eq cmp b c \<longrightarrow> cf_eq cmp a c) \<and>
            (is_negative (cmp a b) \<and> is_negative (cmp b c) \<longrightarrow> is_negative (cmp a c)) \<and>
            (is_positive (cmp a b) \<and> is_positive (cmp b c) \<longrightarrow> is_positive (cmp a c))) xs) xs) xs"

text \<open>
  The sort is stable, so for a consistent comparator its result is the one of a stable
  insertion sort: an element goes before the first element it does not compare greater
  than.
\<close>

fun insert_sorted :: "('a \<Rightarrow> 'a \<Rightarrow> number) \<Rightarrow> 'a \<Rightarrow> 'a list \<Rightarrow> 'a list" where
  "insert_sorted cmp x [] = [x]"
| "insert_sorted cmp x (y # ys) =
     (if is_positive (cmp x y) then y # insert_sorted cmp x ys else x # y # ys)"

definition stable_sort :: "('a \<Rightarrow> 'a \<Rightarrow> number) \<Rightarrow> 'a list \<Rightarrow> 'a list" where
  "stable_sort cmp xs = foldr (insert_sorted cmp) xs []"

definition Array_sort :: "('a \<Rightarrow> 'a \<Rightarrow> number) \<Rightarrow> 'a list \<Rightarrow> js_failure + 'a list" where
  "Array_sort cmp xs =
     (if consistent_comparator cmp xs then Inr (stable_sort cmp xs) else Inl UnspecifiedOrder)"

section \<open>The interval reconciler\<close>

record MinMax =
  mm_min :: number
  mm_max :: number

record entry =
  entry_id :: string
  originalMin :: number
  originalMax :: number

record segment =
  seg_id :: string
  seg_start :: number
  seg_end :: number

text \<open>The comparator \<open>(a, b) => a.originalMin - b.originalMin\<close>.\<close>

definition by_originalMin :: "entry \<Rightarrow> entry \<Rightarrow> number" where
  "by_originalMin a b = js_sub (originalMin a) (originalMin b)"

text \<open>
  The \<open>for\<close> loop of \<open>orderCanvasMapping\<close> and \<open>orderAnnotationMapping\<close>, with the index
  \<open>i\<close> and the array \<open>result\<close> as loop state.  \<open>entries[i + 1]\<close> past the end is
  \<open>undefined\<close>, which the test \<open>if (next)\<close> rejects; reading \<open>.end\<close> of a missing
  \<open>result[i - 1]\<close> would raise a \<open>TypeError\<close>.
\<close>

function reconcile_loop :: "nat \<Rightarrow> entry list \<Rightarrow> segment list \<Rightarrow> js_failure + segment list" where
  "reconcile_loop i entries result =
     (if i < length entries then
        (let current = entries ! i;
             next = (if i + 1 < length entries then Some (entries ! (i + 1)) else None)
         in if i = 0 then
              (let start = originalMin current;
                   end' = (case next of
                       Some n \<Rightarrow> js_div (js_add (originalMax current) (originalMin n)) (Fin 2)
                     | None \<Rightarrow> originalMax current)
               in reconcile_loop (i + 1) entries
                    (result @ [\<lparr>seg_id = entry_id current, seg_start = start, seg_end = end'\<rparr>]))
            else if i - 1 < length result then
              (let start = seg_end (result ! (i - 1));
                   end' = (case next of
                       Some n \<Rightarrow> js_div (js_add (originalMax current) (originalMin n)) (Fin 2)
                     | None \<Rightarrow> originalMax current)
               in reconcile_loop (i + 1) entries
                    (result @ [\<lparr>seg_id = entry_id current, seg_start = start, seg_end = end'\<rparr>]))
            else Inl TypeError)
      else Inr result)"
  by pat_completeness auto
termination
  by (relation "measure (\<lambda>(i, entries, result). length entries - i)") auto

declare reconcile_loop.simps [simp del]

text \<open>
  What both functions do once \<open>entries\<close> is built: sort, return \<open>[]\<close> for no entries,
  run the loop.
\<close>

definition reconcile :: "entry list \<Rightarrow> js_failure + segment list" where
  "reconcile entries =
     (case Array_sort by_originalMin entries of
        Inl e \<Rightarrow> Inl e
      | Inr sorted_entries \<Rightarrow>
          if length sorted_entries = 0 then Inr [] else reconcile_loop 0 sorted_entries [])"

definition canvas_entries :: "(string \<times> MinMax) list \<Rightarrow> entry list" where
  "canvas_entries canvasMinMax =
     map (\<lambda>(id, range). \<lparr>entry_id = id, originalMin = mm_min range, originalMax = mm_max range\<rparr>)
       (Object_entries canvasMinMax)"

text \<open>\<open>orderCanvasMapping\<close>, the same in the script and in the interactive generator.\<close>

definition orderCanvasMapping :: "(string \<times> MinMax) list \<Rightarrow> js_failure + segment list" where
  "orderCanvasMapping canvasMinMax = reconcile (canvas_entries canvasMinMax)"

section \<open>Fragment parsers\<close>

text \<open>
  Strings are lists of code units.  \<open>starts_with\<close> and \<open>ends_with\<close> test a literal at
  the start and at the end of a string.
\<close>

definition starts_with :: "string \<Rightarrow> string \<Rightarrow> bool" where
  "starts_with p s = (take (length p) s = p)"

definition ends_with :: "string \<Rightarrow> string \<Rightarrow> bool" where
  "ends_with p s = (length p \<le> length s \<and> drop (length s - length p) s = p)"

subsection \<open>The built-ins \<open>parseFloat\<close> and \<open>Number\<close>\<close>

definition is_space :: "char \<Rightarrow> bool" where
  "is_space c = ((of_char c :: nat) \<in> {9, 10, 11, 12, 13, 32, 160})"

text \<open>
  The longest prefix that is a \<open>StrUnsignedDecimalLiteral\<close>: \<open>Infinity\<close>, or digits
  with an optional fraction and an optional exponent.  The result is the exact value
  (\<open>None\<close> for \<open>Infinity\<close>) and the rest of the string.
\<close>

definition exponent_part :: "string \<Rightarrow> (int \<times> string) option" where
  "exponent_part s =
     (case s of
        [] \<Rightarrow> None
      | c # r \<Rightarrow>
          if c = CHR ''e'' \<or> c = CHR ''E'' then
            (let sg = (if starts_with ''-'' r then - 1 else 1);
                 r' = (if starts_with ''-'' r \<or> starts_with ''+'' r then tl r else r);
                 ds = takeWhile is_digit r'
             in if ds = [] then None else Some (sg * int (dec_val ds), dropWhile is_digit r'))
          else None)"

definition unsigned_decimal :: "string \<Rightarrow> (rat option \<times> string) option" where
  "unsigned_decimal s =
     (if starts_with ''Infinity'' s then Some (None, drop 8 s)
      else
        (let ip = takeWhile is_digit s;
             r1 = dropWhile is_digit s;
             fp = (if starts_with ''.'' r1 then takeWhile is_digit (tl r1) else []);
             r2 = (if starts_with ''.'' r1 then dropWhile is_digit (tl r1) else r1)
         in if ip = [] \<and> fp = [] then None
            else
              (let m = of_nat (dec_val ip) + of_nat (dec_val fp) / 10 ^ length fp
               in case exponent_part r2 of
                    None \<Rightarrow> Some (Some m, r2)
                  | Some (e, r3) \<Rightarrow> Some (Some (m * 10 powi e), r3))))"

text \<open>
  A signed literal: whether a minus sign leads, the exact value of the unsigned literal,
  and the rest of the string.  The number it denotes is the exact value rounded.
\<close>

definition signed_decimal :: "string \<Rightarrow> ((bool \<times> rat option) \<times> string) option" where
  "signed_decimal s =
     (let neg = starts_with ''-'' s;
          body = (if starts_with ''-'' s \<or> starts_with ''+'' s then tl s else s)
      in case unsigned_decimal body of
           None \<Rightarrow> None
         | Some (v, r) \<Rightarrow> Some ((neg, v), r))"

definition number_of :: "bool \<times> rat option \<Rightarrow> number" where
  "number_of v =
     (case v of
        (neg, None) \<Rightarrow> if neg then NInf else PInf
      | (neg, Some m) \<Rightarrow> fl (if neg then - m else m))"

text \<open>\<open>parseFloat\<close>: leading white space is skipped, what follows the literal is ignored.\<close>

definition parseFloat :: "string \<Rightarrow> number" where
  "parseFloat s =
     (case signed_decimal (dropWhile is_space s) of None \<Rightarrow> NaN | Some (v, r) \<Rightarrow> number_of v)"

text \<open>An argument that is \<open>undefined\<close> is first converted to the string \<open>undefined\<close>.\<close>

definition ToString :: "string option \<Rightarrow> string" where
  "ToString v = (case v of None \<Rightarrow> ''undefined'' | Some s \<Rightarrow> s)"

definition radix_digit :: "char \<Rightarrow> nat option" where
  "radix_digit c =
     (let n = (of_char c :: nat)
      in if 48 \<le> n \<and> n \<le> 57 then Some (n - 48)
         else if 97 \<le> n \<and> n \<le> 102 then Some (n - 87)
         else if 65 \<le> n \<and> n \<le> 70 then Some (n - 55)
         else None)"

definition radix_val :: "nat \<Rightarrow> string \<Rightarrow> nat option" where
  "radix_val b s =
     (if s \<noteq> [] \<and> list_all (\<lambda>c. case radix_digit c of None \<Rightarrow> False | Some d \<Rightarrow> d < b) s
      then Some (foldl (\<lambda>a c. b * a + (case radix_digit c of None \<Rightarrow> 0 | Some d \<Rightarrow> d)) 0 s)
      else None)"

definition non_decimal :: "string \<Rightarrow> nat option" where
  "non_decimal s =
     (if starts_with ''0x'' s \<or> starts_with ''0X'' s then radix_val 16 (drop 2 s)
      else if starts_with ''0o'' s \<or> starts_with ''0O'' s then radix_val 8 (drop 2 s)
      else if starts_with ''0b'' s \<or> starts_with ''0B'' s then radix_val 2 (drop 2 s)
      else None)"

text \<open>
  \<open>Number\<close> on a string: white space is trimmed at both ends, the empty string is \<open>0\<close>,
  and the whole rest has to be a numeric literal.
\<close>

definition Number :: "string \<Rightarrow> number" where
  "Number s =
     (let t = rev (dropWhile is_space (rev (dropWhile is_space s)))
      in if t = [] then Fin 0
         else case non_decimal t of
                Some n \<Rightarrow> fl (of_nat n)
              | None \<Rightarrow>
                  (case signed_decimal t of
                     None \<Rightarrow> NaN
                   | Some (v, r) \<Rightarrow> if r = [] then number_of v else NaN))"

subsection \<open>The temporal fragment\<close>

record TimeRange =
  t_start :: number
  t_end :: number

text \<open>
  The regular expression
  \<open>/&?(t=)(npt:)?([0-9]+(\.[0-9]+)?)?(,([0-9]+(\.[0-9]+)?))?/\<close>.
  Only the groups 3 and 6 are read; a group that took no part in the match is
  \<open>undefined\<close>.  \<open>take_number\<close> is \<open>[0-9]+(\.[0-9]+)?\<close> at the start of a string.
\<close>

record temporal_groups =
  group3 :: "string option"
  group6 :: "string option"

definition take_number :: "string \<Rightarrow> (string \<times> string) option" where
  "take_number s =
     (let ds = takeWhile is_digit s; r = dropWhile is_digit s
      in if ds = [] then None
         else if starts_with ''.'' r \<and> takeWhile is_digit (tl r) \<noteq> []
              then Some (ds @ ''.'' @ takeWhile is_digit (tl r), dropWhile is_digit (tl r))
              else Some (ds, r))"

text \<open>
  Everything after \<open>t=\<close> is optional and greedy, so the first attempt at a position
  succeeds as soon as \<open>t=\<close> (after an optional \<open>&\<close>) is found there.
\<close>

definition groups_after :: "string \<Rightarrow> temporal_groups" where
  "groups_after r0 =
     (let r1 = (if starts_with ''npt:'' r0 then drop 4 r0 else r0);
          g3 = map_option fst (take_number r1);
          r2 = (case take_number r1 of None \<Rightarrow> r1 | Some (n, r) \<Rightarrow> r);
          g6 = (if starts_with '','' r2 then map_option fst (take_number (tl r2)) else None)
      in \<lparr>group3 = g3, group6 = g6\<rparr>)"

definition match_here :: "string \<Rightarrow> temporal_groups option" where
  "match_here s =
     (let s0 = (if starts_with ''&'' s then tl s else s)
      in if starts_with ''t='' s0 then Some (groups_after (drop 2 s0)) else None)"

text \<open>\<open>frag.match(TEMPORAL_SELECTOR)\<close>: the match at the leftmost position that has one.\<close>

fun temporal_match :: "string \<Rightarrow> temporal_groups option" where
  "temporal_match [] = match_here []"
| "temporal_match (c # cs) =
     (case match_here (c # cs) of Some g \<Rightarrow> Some g | None \<Rightarrow> temporal_match cs)"

definition getTime :: "string \<Rightarrow> TimeRange" where
  "getTime frag =
     (case temporal_match frag of
        Some match \<Rightarrow>
          (let start = parseFloat (ToString (group3 match));
               end' = parseFloat (ToString (group6 match))
           in \<lparr>t_start = start, t_end = end'\<rparr>)
      | None \<Rightarrow> \<lparr>t_start = Fin 0, t_end = Fin 0\<rparr>)"

subsection \<open>The spatial fragment\<close>

text \<open>
  \<open>split\<close> with a separator that is a fixed non-empty literal: the pieces between its
  successive occurrences, found from the left.
\<close>

function split_acc :: "string \<Rightarrow> string \<Rightarrow> string \<Rightarrow> string list" where
  "split_acc sep cur [] = [cur]"
| "split_acc sep cur (c # cs) =
     (if sep \<noteq> [] \<and> starts_with sep (c # cs)
      then cur # split_acc sep [] (drop (length sep) (c # cs))
      else split_acc sep (cur @ [c]) cs)"
  by pat_completeness auto
termination
  by (relation "measure (\<lambda>(sep, cur, s). length s)") auto

definition split :: "string \<Rightarrow> string \<Rightarrow> string list" where
  "split sep s = split_acc sep [] s"

text \<open>\<open>replace(/^\(\(|\)\)$/g, "")\<close>: a leading \<open>((\<close> and then a trailing \<open>))\<close> are removed.\<close>

definition strip_outer :: "string \<Rightarrow> string" where
  "strip_outer s =
     (let s1 = (if starts_with ''(('' s then drop 2 s else s)
      in if ends_with ''))'' s1 then take (length s1 - 2) s1 else s1)"

definition parseFragmentSelector :: "string \<Rightarrow> number list list" where
  "parseFragmentSelector value =
     map (\<lambda>coord. map Number (split '','' (remove1 CHR ''P'' coord)))
       (split '')('' (strip_outer value))"

section \<open>The identifier join and the page range accumulator\<close>

text \<open>
  What the join reads of a raw annotation: \<open>anno?.body?.source\<close>,
  \<open>anno?.body?.selector?.type\<close> and \<open>anno.body.selector.value\<close>; \<open>None\<close> is a value that
  is missing.  A collection maps an id to one annotation or to an array of them.
\<close>

record annotation =
  body_source :: "string option"
  selector_type :: "string option"
  selector_value :: "string option"

datatype annotations = One annotation | Many "annotation list"

definition annotationList :: "annotations \<Rightarrow> annotation list" where
  "annotationList a = (case a of Many as \<Rightarrow> as | One x \<Rightarrow> [x])"

text \<open>
  The test \<open>anno?.body?.source && anno?.body?.selector?.type === "FragmentSelector"\<close>;
  the empty string is falsy.
\<close>

definition accepted :: "annotation \<Rightarrow> bool" where
  "accepted anno =
     ((case body_source anno of None \<Rightarrow> False | Some s \<Rightarrow> s \<noteq> [])
      \<and> selector_type anno = Some ''FragmentSelector'')"

text \<open>
  \<open>toSvg\<close> renders a string from the width, the height, the element name and the points;
  the selector is kept as these parts.
\<close>

record SvgSelector =
  svg_width :: number
  svg_height :: number
  svg_el :: string
  svg_points :: "number list list"

definition toSvg :: "number \<Rightarrow> number \<Rightarrow> number list list \<Rightarrow> SvgSelector" where
  "toSvg width height points =
     \<lparr>svg_width = width, svg_height = height, svg_el = ''polygon'', svg_points = points\<rparr>"

subsection \<open>Objects and the prototype chain\<close>

text \<open>
  \<open>mapping\<close> and \<open>canvasMinMax\<close> are object literals \<open>{}\<close>, so a key they do not hold is
  looked up on \<open>Object.prototype\<close>, and the records they hold are objects that several
  keys can share.  The objects live in a store, a list indexed by address.  A value is
  \<open>undefined\<close>, a number, a string or the address of an object.
\<close>

datatype val = Undefined | Num number | Str string | Ref nat

text \<open>
  An object has its own properties, in the order of their creation, and is one of: a
  plain object, a function the language provides (named by the property of
  \<open>Object.prototype\<close> that holds it), the array of points \<open>parseFragmentSelector\<close>
  returns, or the selector \<open>toSvg\<close> returns.
\<close>

datatype content = Plain | Native string | Points "number list list" | Selector SvgSelector

record obj =
  obj_content :: content
  obj_props :: "(string \<times> val) list"

text \<open>
  The function-valued properties of \<open>Object.prototype\<close>.  The store starts with
  \<open>Object.prototype\<close> at address \<open>0\<close> and these functions at the addresses \<open>1\<close> to \<open>11\<close>;
  \<open>obj_props\<close> of these objects holds the properties the program adds to them.
\<close>

definition prototype_methods :: "string list" where
  "prototype_methods =
     [''constructor'', ''__defineGetter__'', ''__defineSetter__'', ''hasOwnProperty'',
      ''__lookupGetter__'', ''__lookupSetter__'', ''isPrototypeOf'', ''propertyIsEnumerable'',
      ''toString'', ''valueOf'', ''toLocaleString'']"

definition empty_object :: obj where
  "empty_object = \<lparr>obj_content = Plain, obj_props = []\<rparr>"

definition initial_store :: "obj list" where
  "initial_store =
     empty_object # map (\<lambda>name. \<lparr>obj_content = Native name, obj_props = []\<rparr>) prototype_methods"

definition object_at :: "obj list \<Rightarrow> nat \<Rightarrow> obj" where
  "object_at h a = (if a < length h then h ! a else empty_object)"

fun index_of :: "'a \<Rightarrow> 'a list \<Rightarrow> nat option" where
  "index_of x [] = None"
| "index_of x (y # ys) = (if x = y then Some 0 else map_option Suc (index_of x ys))"

text \<open>
  What a plain object inherits under the key \<open>k\<close>: its prototype under \<open>__proto__\<close>, a
  function of the language under one of the names above, and otherwise what the program
  has written onto \<open>Object.prototype\<close>.
\<close>

definition inherited :: "obj list \<Rightarrow> string \<Rightarrow> val" where
  "inherited h k =
     (if k = ''__proto__'' then Ref 0
      else case index_of k prototype_methods of
             Some i \<Rightarrow> Ref (Suc i)
           | None \<Rightarrow> (case map_of (obj_props (object_at h 0)) k of
                         Some v \<Rightarrow> v
                       | None \<Rightarrow> Undefined))"

text \<open>
  \<open>d[k]\<close> on a dictionary, given by its own properties: an own property, or an inherited
  value.  \<open>__proto__\<close> is never an own property of an object filled by assignment.
\<close>

datatype 'a found = Own 'a | Inherited val

definition lookup :: "obj list \<Rightarrow> (string \<times> 'a) list \<Rightarrow> string \<Rightarrow> 'a found" where
  "lookup h d k =
     (if k = ''__proto__'' then Inherited (Ref 0)
      else case map_of d k of
             Some x \<Rightarrow> Own x
           | None \<Rightarrow> Inherited (inherited h k))"

definition dict_get :: "obj list \<Rightarrow> (string \<times> val) list \<Rightarrow> string \<Rightarrow> val" where
  "dict_get h d k = (case lookup h d k of Own v \<Rightarrow> v | Inherited v \<Rightarrow> v)"

text \<open>
  \<open>d[k] = v\<close>.  Under \<open>__proto__\<close> the assignment calls the setter of \<open>Object.prototype\<close>,
  which creates no property; the program only ever assigns the prototype the object
  already has.
\<close>

definition dict_set :: "(string \<times> val) list \<Rightarrow> string \<Rightarrow> val \<Rightarrow> (string \<times> val) list" where
  "dict_set d k v = (if k = ''__proto__'' then d else AList.update k v d)"

text \<open>What \<open>!\<close> and \<open>||\<close> take for true.\<close>

fun truthy :: "val \<Rightarrow> bool" where
  "truthy Undefined = False"
| "truthy (Num n) = (n \<noteq> NaN \<and> n \<noteq> Fin 0)"
| "truthy (Str s) = (s \<noteq> [])"
| "truthy (Ref a) = True"

text \<open>
  \<open>v.k\<close> for the property names the program writes (\<open>audio\<close>, \<open>imageId\<close>, \<open>canvasId\<close>,
  \<open>svgPoints\<close>, \<open>svgSelector\<close>, \<open>minMax\<close>, \<open>min\<close>, \<open>max\<close>) and for \<open>start\<close>, \<open>end\<close>, \<open>width\<close>
  and \<open>height\<close>: no object of the language has a property of these names, so the value is
  an own property or comes from \<open>Object.prototype\<close>.  Reading a property of \<open>undefined\<close>
  raises; a string or a number inherits through its wrapper.
\<close>

definition get_prop :: "obj list \<Rightarrow> val \<Rightarrow> string \<Rightarrow> js_failure + val" where
  "get_prop h v k =
     (case v of
        Undefined \<Rightarrow> Inl TypeError
      | Ref a \<Rightarrow> Inr (case map_of (obj_props (object_at h a)) k of
                       Some x \<Rightarrow> x
                     | None \<Rightarrow> inherited h k)
      | _ \<Rightarrow> Inr (inherited h k))"

text \<open>
  \<open>v.k = x\<close> for these names.  The code is a module, hence strict: assigning to a
  property of a string, a number or \<open>undefined\<close> raises.
\<close>

definition set_prop :: "obj list \<Rightarrow> val \<Rightarrow> string \<Rightarrow> val \<Rightarrow> js_failure + obj list" where
  "set_prop h v k x =
     (case v of
        Ref a \<Rightarrow>
          Inr (h[a := (object_at h a)\<lparr>obj_props := AList.update k x (obj_props (object_at h a))\<rparr>])
      | _ \<Rightarrow> Inl TypeError)"

text \<open>A new object, at the next address.\<close>

definition alloc :: "obj list \<Rightarrow> obj \<Rightarrow> obj list \<times> val" where
  "alloc h ob = (h @ [ob], Ref (length h))"

text \<open>\<open>d[k] = d[k] || literal\<close>; the literal is evaluated only when \<open>d[k]\<close> is falsy.\<close>

definition ensure ::
  "obj list \<Rightarrow> (string \<times> val) list \<Rightarrow> string \<Rightarrow> obj \<Rightarrow> obj list \<times> (string \<times> val) list" where
  "ensure h d k literal =
     (let v = dict_get h d k
      in if truthy v then (h, dict_set d k v)
         else (let (h', r) = alloc h literal in (h', dict_set d k r)))"

text \<open>
  The number an arithmetic operand converts to.  The properties read as numbers
  (\<open>start\<close>, \<open>end\<close>, \<open>min\<close>, \<open>max\<close>) are only ever assigned numbers, so they hold a number
  or are missing; an object, which would convert through its text, does not occur.
\<close>

fun to_number :: "val \<Rightarrow> number" where
  "to_number (Num n) = n"
| "to_number Undefined = NaN"
| "to_number (Str s) = Number s"
| "to_number (Ref a) = NaN"

text \<open>Sequencing of steps that may raise.\<close>

definition and_then :: "js_failure + 'a \<Rightarrow> ('a \<Rightarrow> js_failure + 'b) \<Rightarrow> js_failure + 'b" where
  "and_then r f = (case r of Inl e \<Rightarrow> Inl e | Inr x \<Rightarrow> f x)"

subsection \<open>The first pass\<close>

text \<open>The state of the join: the store and the own properties of the two dictionaries.\<close>

record join_state =
  js_store :: "obj list"
  js_mapping :: "(string \<times> val) list"
  js_canvasMinMax :: "(string \<times> val) list"

text \<open>The object \<open>{ start, end }\<close> that \<open>getTime\<close> returns.\<close>

definition time_object :: "TimeRange \<Rightarrow> obj" where
  "time_object t =
     \<lparr>obj_content = Plain, obj_props = [(''start'', Num (t_start t)), (''end'', Num (t_end t))]\<rparr>"

text \<open>
  The body of the first \<open>forEach\<close>, over the annotations of one id:
  \<open>mapping[id] = mapping[id] || {}\<close> and \<open>mapping[id].audio = getTime(...)\<close>.  A selector
  without a string \<open>value\<close> makes \<open>frag.match\<close> raise.
\<close>

fun audio_loop :: "string \<Rightarrow> join_state \<Rightarrow> annotation list \<Rightarrow> js_failure + join_state" where
  "audio_loop id' st [] = Inr st"
| "audio_loop id' st (anno # rest) =
     (if accepted anno then
        (let (h1, m1) = ensure (js_store st) (js_mapping st) id' empty_object
         in case selector_value anno of
              None \<Rightarrow> Inl TypeError
            | Some v \<Rightarrow>
                (let (h2, t) = alloc h1 (time_object (getTime v))
                 in case set_prop h2 (dict_get h2 m1 id') ''audio'' t of
                      Inl e \<Rightarrow> Inl e
                    | Inr h3 \<Rightarrow> audio_loop id' (st\<lparr>js_store := h3, js_mapping := m1\<rparr>) rest))
      else audio_loop id' st rest)"

fun audio_pass :: "join_state \<Rightarrow> (string \<times> annotations) list \<Rightarrow> js_failure + join_state" where
  "audio_pass st [] = Inr st"
| "audio_pass st ((id', as) # rest) =
     (case audio_loop id' st (annotationList as) of
        Inl e \<Rightarrow> Inl e
      | Inr st' \<Rightarrow> audio_pass st' rest)"

subsection \<open>The second pass\<close>

text \<open>
  The collaborators of the second pass: the table from image service to canvas id built
  from the image manifest, and the canvases the vault holds.  The vault resolves the id
  of a canvas; for any other reference it has no canvas, and \<open>canvas.id\<close> raises.
\<close>

record Canvas =
  canvas_id :: string
  canvas_width :: number
  canvas_height :: number

record environment =
  serviceToCanvasId :: "(string \<times> string) list"
  vault :: "(string \<times> Canvas) list"
  text_of :: "obj list \<Rightarrow> val \<Rightarrow> string"

definition vault_get :: "environment \<Rightarrow> val \<Rightarrow> Canvas option" where
  "vault_get env ref = (case ref of Str k \<Rightarrow> map_of (vault env) k | _ \<Rightarrow> None)"

text \<open>\<open>serviceToCanvasId[source]\<close>.\<close>

definition service_canvas :: "environment \<Rightarrow> obj list \<Rightarrow> string \<Rightarrow> val" where
  "service_canvas env h source =
     (case lookup h (serviceToCanvasId env) source of Own c \<Rightarrow> Str c | Inherited v \<Rightarrow> v)"

text \<open>\<open>Math.min\<close> and \<open>Math.max\<close> of two numbers.\<close>

fun num_le :: "number \<Rightarrow> number \<Rightarrow> bool" where
  "num_le NaN _ = False"
| "num_le _ NaN = False"
| "num_le NInf _ = True"
| "num_le _ PInf = True"
| "num_le (Fin a) (Fin b) = (a \<le> b)"
| "num_le _ _ = False"

definition Math_min :: "number \<Rightarrow> number \<Rightarrow> number" where
  "Math_min a b = (if a = NaN \<or> b = NaN then NaN else if num_le a b then a else b)"

definition Math_max :: "number \<Rightarrow> number \<Rightarrow> number" where
  "Math_max a b = (if a = NaN \<or> b = NaN then NaN else if num_le a b then b else a)"

text \<open>The array \<open>toSvg\<close> maps over; anything else has no \<open>map\<close>, and the call raises.\<close>

definition points_of :: "obj list \<Rightarrow> val \<Rightarrow> js_failure + number list list" where
  "points_of h v =
     (case v of
        Ref a \<Rightarrow> (case obj_content (object_at h a) of Points pts \<Rightarrow> Inr pts | _ \<Rightarrow> Inl TypeError)
      | _ \<Rightarrow> Inl TypeError)"

text \<open>
  The statements of the second \<open>forEach\<close> after its guard, for one annotation; \<open>audio'\<close> is
  the constant \<open>audio\<close>.  \<open>mapping[id]\<close> and \<open>canvasMinMax[canvas.id]\<close> are looked up anew in
  each statement, as the code does.
\<close>

definition image_body ::
  "environment \<Rightarrow> string \<Rightarrow> join_state \<Rightarrow> annotation \<Rightarrow> val \<Rightarrow> js_failure + join_state" where
  "image_body env id' st anno audio' =
     (let source = ToString (body_source anno);
          (h1, m1) = ensure (js_store st) (js_mapping st) id' empty_object
      in
      and_then (set_prop h1 (dict_get h1 m1 id') ''imageId'' (Str source)) (\<lambda>h2.
      and_then (set_prop h2 (dict_get h2 m1 id') ''canvasId'' (service_canvas env h2 source)) (\<lambda>h3.
      (case selector_value anno of
         None \<Rightarrow> Inl TypeError
       | Some v \<Rightarrow>
      (let (h4, p) = alloc h3 \<lparr>obj_content = Points (parseFragmentSelector v), obj_props = []\<rparr>
       in
      and_then (set_prop h4 (dict_get h4 m1 id') ''svgPoints'' p) (\<lambda>h5.
      (case vault_get env (service_canvas env h5 source) of
         None \<Rightarrow> Inl TypeError
       | Some canvas \<Rightarrow>
      (let cid = canvas_id canvas;
           (h6, c1) = ensure h5 (js_canvasMinMax st) cid
              \<lparr>obj_content = Plain, obj_props = [(''min'', Num PInf), (''max'', Num NInf)]\<rparr>
       in
      and_then (get_prop h6 audio' ''start'') (\<lambda>s.
      and_then (get_prop h6 (dict_get h6 c1 cid) ''min'') (\<lambda>lo.
      and_then (set_prop h6 (dict_get h6 c1 cid) ''min''
                  (Num (Math_min (to_number s) (to_number lo)))) (\<lambda>h7.
      and_then (get_prop h7 audio' ''end'') (\<lambda>e.
      and_then (get_prop h7 (dict_get h7 c1 cid) ''max'') (\<lambda>hi.
      and_then (set_prop h7 (dict_get h7 c1 cid) ''max''
                  (Num (Math_max (to_number e) (to_number hi)))) (\<lambda>h8.
      and_then (get_prop h8 (dict_get h8 m1 id') ''svgPoints'') (\<lambda>pv.
      and_then (points_of h8 pv) (\<lambda>pts.
      (let (h9, sel) = alloc h8
            \<lparr>obj_content = Selector (toSvg (canvas_width canvas) (canvas_height canvas) pts),
             obj_props = []\<rparr>
       in
      and_then (set_prop h9 (dict_get h9 m1 id') ''svgSelector'' sel) (\<lambda>h10.
      and_then (set_prop h10 (dict_get h10 m1 id') ''minMax'' (dict_get h10 c1 cid)) (\<lambda>h11.
      Inr \<lparr>js_store = h11, js_mapping = m1, js_canvasMinMax = c1\<rparr>)))))))))))))))))))"

text \<open>
  The body of the second \<open>forEach\<close>.  The guard
  \<open>if (!mapping[id] || !mapping[id].audio) return;\<close> and the test \<open>if (!audio) return;\<close>
  leave the callback, and with it the remaining annotations of the id.
\<close>

fun image_loop ::
  "environment \<Rightarrow> string \<Rightarrow> join_state \<Rightarrow> annotation list \<Rightarrow> js_failure + join_state" where
  "image_loop env id' st [] = Inr st"
| "image_loop env id' st (anno # rest) =
     (if accepted anno then
        (let item = dict_get (js_store st) (js_mapping st) id'
         in if \<not> truthy item then Inr st
            else case get_prop (js_store st) item ''audio'' of
                   Inl e \<Rightarrow> Inl e
                 | Inr audio' \<Rightarrow>
                     if \<not> truthy audio' then Inr st
                     else (case image_body env id' st anno audio' of
                             Inl e \<Rightarrow> Inl e
                           | Inr st' \<Rightarrow> image_loop env id' st' rest))
      else image_loop env id' st rest)"

fun image_pass ::
  "environment \<Rightarrow> join_state \<Rightarrow> (string \<times> annotations) list \<Rightarrow> js_failure + join_state" where
  "image_pass env st [] = Inr st"
| "image_pass env st ((id', as) # rest) =
     (case image_loop env id' st (annotationList as) of
        Inl e \<Rightarrow> Inl e
      | Inr st' \<Rightarrow> image_pass env st' rest)"

text \<open>
  Both passes, from the empty \<open>mapping\<close> and the empty \<open>canvasMinMax\<close>.  The collections
  come from \<open>JSON.parse\<close>, which makes every key an own property, \<open>__proto__\<close> included.
\<close>

definition join ::
  "environment \<Rightarrow> (string \<times> annotations) list \<Rightarrow> (string \<times> annotations) list
     \<Rightarrow> js_failure + join_state" where
  "join env audioAnnotations imageAnnotations =
     (case audio_pass \<lparr>js_store = initial_store, js_mapping = [], js_canvasMinMax = []\<rparr>
             (Object_entries audioAnnotations) of
        Inl e \<Rightarrow> Inl e
      | Inr st \<Rightarrow> image_pass env st (Object_entries imageAnnotations))"

subsection \<open>The records and the page ranges as the later stages read them\<close>

text \<open>
  A record of \<open>mapping\<close> as its reader sees it, every field looked up through the
  prototype chain.  \<open>minMax\<close> holds a reference to the accumulator object of a page, which
  is named by the key of that page in \<open>canvasMinMax\<close>.
\<close>

record NoteRecord =
  audio :: "TimeRange option"
  imageId :: "string option"
  canvasId :: "string option"
  svgPoints :: "number list list option"
  svgSelector :: "SvgSelector option"
  minMax :: "string option"

definition empty_record :: NoteRecord where
  "empty_record = \<lparr>audio = None, imageId = None, canvasId = None, svgPoints = None,
                    svgSelector = None, minMax = None\<rparr>"

definition read_prop :: "obj list \<Rightarrow> val \<Rightarrow> string \<Rightarrow> val" where
  "read_prop h v k = (case get_prop h v k of Inl e \<Rightarrow> Undefined | Inr x \<Rightarrow> x)"

definition selector_of :: "obj list \<Rightarrow> val \<Rightarrow> SvgSelector option" where
  "selector_of h v =
     (case v of
        Ref a \<Rightarrow> (case obj_content (object_at h a) of Selector s \<Rightarrow> Some s | _ \<Rightarrow> None)
      | _ \<Rightarrow> None)"

definition note_record :: "obj list \<Rightarrow> (string \<times> val) list \<Rightarrow> val \<Rightarrow> NoteRecord" where
  "note_record h canvasMinMax v =
     \<lparr>audio = (let a = read_prop h v ''audio''
               in if truthy a
                  then Some \<lparr>t_start = to_number (read_prop h a ''start''),
                             t_end = to_number (read_prop h a ''end'')\<rparr>
                  else None),
      imageId = (case read_prop h v ''imageId'' of Str s \<Rightarrow> Some s | _ \<Rightarrow> None),
      canvasId = (case read_prop h v ''canvasId'' of Str s \<Rightarrow> Some s | _ \<Rightarrow> None),
      svgPoints = (case points_of h (read_prop h v ''svgPoints'') of
                     Inl e \<Rightarrow> None
                   | Inr pts \<Rightarrow> Some pts),
      svgSelector = selector_of h (read_prop h v ''svgSelector''),
      minMax = map_of (map (\<lambda>(k, w). (w, k)) canvasMinMax) (read_prop h v ''minMax'')\<rparr>"

text \<open>The own properties of \<open>mapping\<close> and of \<open>canvasMinMax\<close>, each with its object read.\<close>

definition note_records :: "join_state \<Rightarrow> (string \<times> NoteRecord) list" where
  "note_records st =
     map (\<lambda>(k, v). (k, note_record (js_store st) (js_canvasMinMax st) v)) (js_mapping st)"

definition page_ranges :: "join_state \<Rightarrow> (string \<times> MinMax) list" where
  "page_ranges st =
     map (\<lambda>(k, v). (k, \<lparr>mm_min = to_number (read_prop (js_store st) v ''min''),
                         mm_max = to_number (read_prop (js_store st) v ''max'')\<rparr>))
       (js_canvasMinMax st)"

text \<open>
  \<open>orderAnnotationMapping\<close>: the records with both \<open>audio\<close> and \<open>svgSelector\<close>, by their
  audio range.
\<close>

definition note_entries :: "(string \<times> NoteRecord) list \<Rightarrow> entry list" where
  "note_entries annotation =
     List.map_filter
       (\<lambda>(id, range).
          case (audio range, svgSelector range) of
            (Some a, Some s) \<Rightarrow> Some \<lparr>entry_id = id, originalMin = t_start a, originalMax = t_end a\<rparr>
          | _ \<Rightarrow> None)
       (Object_entries annotation)"

definition orderAnnotationMapping :: "(string \<times> NoteRecord) list \<Rightarrow> js_failure + segment list" where
  "orderAnnotationMapping annotation = reconcile (note_entries annotation)"

section \<open>The manifest assembler\<close>

text \<open>
  What the assembler reads of the audio canvas \<open>audioManifest.items[0]\<close>: its id and
  duration and its annotation pages; of an annotation its body, and of the body its id and
  the two fields \<open>fixAudio\<close> writes.  A missing value is \<open>None\<close>.
\<close>

record Body =
  body_id :: "string option"
  format :: "string option"
  body_type :: "string option"

record AudioAnnotation =
  anno_id :: string
  body :: "Body option"

record AnnotationPage =
  page_id :: string
  page_items :: "AudioAnnotation list"

record AudioCanvas =
  ac_id :: string
  ac_duration :: number
  ac_items :: "AnnotationPage list"

record Resource =
  res_id :: string
  res_width :: number
  res_height :: number

text \<open>
  \<open>fixAudio\<close> assigns to two fields of \<open>audio.body\<close> and returns the same object: the
  result is the new state of the object it was given.
\<close>

definition fixAudio :: "AudioAnnotation \<Rightarrow> js_failure + AudioAnnotation" where
  "fixAudio audio' =
     (case body audio' of
        None \<Rightarrow> Inl TypeError
      | Some b \<Rightarrow>
          Inr (audio'\<lparr>body := Some (b\<lparr>format := Some ''audio/mpeg'', body_type := Some ''Sound''\<rparr>)\<rparr>))"

text \<open>
  The values the assembler consumes.  They are objects of the program: the audio canvas
  parsed from the audio manifest, the two partitions, the two tables built from the image
  manifest, and \<open>mapping\<close> with the store that holds its records.  The assembler returns,
  with the document, the state they are in afterwards.
\<close>

record assembler_inputs =
  audioCanvas :: AudioCanvas
  orderedCanvases :: "segment list"
  filteredAnnotationMapping :: "segment list"
  canvasToServiceId :: "(string \<times> string) list"
  resourceMap :: "(string \<times> Resource) list"
  mapping :: "(string \<times> val) list"
  store :: "obj list"

text \<open>
  The output document.  The target of a painting annotation is the string
  \<open>canvasId#xywh=0,0,w,h&t=start,end\<close> and the time selector of a highlight is the
  string \<open>t=start,end\<close>; both are kept as the values they are rendered from.  The body of
  a painting annotation is what the lookup in \<open>resourceMap\<close> found.
\<close>

record PaintingAnnotation =
  pa_id :: string
  pa_motivation :: string
  pa_body :: "Resource found list"
  pa_canvas :: string
  pa_width :: val
  pa_height :: val
  pa_start :: number
  pa_end :: number

datatype page_item = Audio AudioAnnotation | Painting PaintingAnnotation

record Highlight =
  hl_id :: string
  hl_motivation :: string
  hl_source :: string
  hl_svgSelector :: "SvgSelector option"
  hl_start :: number
  hl_end :: number

record Manifest =
  man_id :: string
  man_label :: string
  man_canvas_id :: string
  man_canvas_label :: string
  man_duration :: number
  man_width :: number
  man_height :: number
  man_page_id :: string
  man_items :: "page_item list"
  man_annotations_id :: string
  man_annotations :: "Highlight list"

text \<open>The decimal digits of an array index, as a template string renders it.\<close>

fun show_nat :: "nat \<Rightarrow> string" where
  "show_nat n = (if n < 10 then [char_of (48 + n)] else show_nat (n div 10) @ [char_of (48 + n mod 10)])"

text \<open>
  The property key a value is used as: a string is its own key and \<open>undefined\<close> is the key
  \<open>undefined\<close>; the text of a number or of an object is the environment's \<open>text_of\<close>.
\<close>

definition ToPropertyKey :: "environment \<Rightarrow> obj list \<Rightarrow> val \<Rightarrow> string" where
  "ToPropertyKey env h v =
     (case v of Str s \<Rightarrow> s | Undefined \<Rightarrow> ''undefined'' | _ \<Rightarrow> text_of env h v)"

text \<open>\<open>resourceMap[canvasToServiceId[c.id]]\<close>.\<close>

definition resource_of :: "environment \<Rightarrow> assembler_inputs \<Rightarrow> segment \<Rightarrow> Resource found" where
  "resource_of env inp c =
     (let serviceId = (case lookup (store inp) (canvasToServiceId inp) (seg_id c) of
                         Own s \<Rightarrow> Str s
                       | Inherited v \<Rightarrow> v)
      in lookup (store inp) (resourceMap inp) (ToPropertyKey env (store inp) serviceId))"

text \<open>\<open>resource.width\<close> and \<open>resource.height\<close>; they raise when no resource was found.\<close>

definition dimension ::
  "obj list \<Rightarrow> (Resource \<Rightarrow> number) \<Rightarrow> string \<Rightarrow> Resource found \<Rightarrow> js_failure + val" where
  "dimension h field name r =
     (case r of Own res \<Rightarrow> Inr (Num (field res)) | Inherited v \<Rightarrow> get_prop h v name)"

text \<open>
  \<open>Math.max(...orderedCanvases.map(c => resource.width))\<close>, which is \<open>-Infinity\<close> for no
  canvas.
\<close>

fun max_dimension ::
  "environment \<Rightarrow> (Resource \<Rightarrow> number) \<Rightarrow> string \<Rightarrow> assembler_inputs \<Rightarrow> segment list
     \<Rightarrow> js_failure + number" where
  "max_dimension env field name inp [] = Inr NInf"
| "max_dimension env field name inp (c # cs) =
     (case dimension (store inp) field name (resource_of env inp c) of
        Inl e \<Rightarrow> Inl e
      | Inr v \<Rightarrow>
          (case max_dimension env field name inp cs of
             Inl e \<Rightarrow> Inl e
           | Inr m \<Rightarrow> Inr (Math_max (to_number v) m)))"

text \<open>The painting annotations, \<open>orderedCanvases.map((c, idx) => ...)\<close>.\<close>

fun painting_items ::
  "environment \<Rightarrow> assembler_inputs \<Rightarrow> nat \<Rightarrow> segment list \<Rightarrow> js_failure + page_item list" where
  "painting_items env inp idx [] = Inr []"
| "painting_items env inp idx (c # cs) =
     (let resource = resource_of env inp c
      in case (dimension (store inp) res_width ''width'' resource,
               dimension (store inp) res_height ''height'' resource) of
           (Inr w, Inr h) \<Rightarrow>
             (case painting_items env inp (idx + 1) cs of
                Inl e \<Rightarrow> Inl e
              | Inr items \<Rightarrow>
                  Inr (Painting
                        \<lparr>pa_id = ''https://example/image-anno/'' @ show_nat idx,
                         pa_motivation = ''painting'',
                         pa_body = [resource],
                         pa_canvas = ac_id (audioCanvas inp),
                         pa_width = w,
                         pa_height = h,
                         pa_start = seg_start c,
                         pa_end = seg_end c\<rparr> # items))
         | _ \<Rightarrow> Inl TypeError)"

text \<open>
  The highlight annotations, \<open>filteredAnnotationMapping.map(({id, start, end}) => ...)\<close>,
  with \<open>item = mapping[id]\<close> and \<open>item.svgSelector\<close>.
\<close>

fun highlight_items ::
  "assembler_inputs \<Rightarrow> string \<Rightarrow> segment list \<Rightarrow> js_failure + Highlight list" where
  "highlight_items inp source [] = Inr []"
| "highlight_items inp source (s # ss) =
     (case get_prop (store inp) (dict_get (store inp) (mapping inp) (seg_id s)) ''svgSelector'' of
        Inl e \<Rightarrow> Inl e
      | Inr sel \<Rightarrow>
          (case highlight_items inp source ss of
             Inl e \<Rightarrow> Inl e
           | Inr items \<Rightarrow>
               Inr (\<lparr>hl_id = ''https://example/image-anno/'' @ seg_id s,
                     hl_motivation = ''highlighting'',
                     hl_source = source,
                     hl_svgSelector = selector_of (store inp) sel,
                     hl_start = seg_start s,
                     hl_end = seg_end s\<rparr> # items)))"

text \<open>
  The object literal \<open>newManifest\<close>, with the \<open>width\<close> and \<open>height\<close> computed before it.
  The call \<open>fixAudio(audioCanvas.items[0].items[0])\<close> writes to the annotation held by the
  audio canvas, so the canvas of the returned state holds the annotation as \<open>fixAudio\<close>
  left it.
\<close>

definition newManifest ::
  "environment \<Rightarrow> assembler_inputs \<Rightarrow> js_failure + (Manifest \<times> assembler_inputs)" where
  "newManifest env inp =
     (case (max_dimension env res_width ''width'' inp (orderedCanvases inp),
            max_dimension env res_height ''height'' inp (orderedCanvases inp)) of
        (Inr width, Inr height) \<Rightarrow>
          (case ac_items (audioCanvas inp) of
             [] \<Rightarrow> Inl TypeError
           | page # pages \<Rightarrow>
              (case page_items page of
                 [] \<Rightarrow> Inl TypeError
               | audio' # annos \<Rightarrow>
                  (case fixAudio audio' of
                     Inl e \<Rightarrow> Inl e
                   | Inr fixed \<Rightarrow>
                      (let inp' = inp\<lparr>audioCanvas := (audioCanvas inp)
                                    \<lparr>ac_items := page\<lparr>page_items := fixed # annos\<rparr> # pages\<rparr>\<rparr>
                       in case (painting_items env inp' 0 (orderedCanvases inp'),
                                highlight_items inp' (page_id page) (filteredAnnotationMapping inp')) of
                            (Inr paintings, Inr highlights) \<Rightarrow>
                              Inr (\<lparr>man_id = ''https://example.org'',
                                    man_label = ''Combined manifest 1'',
                                    man_canvas_id = ac_id (audioCanvas inp'),
                                    man_canvas_label = ''Canvas 1'',
                                    man_duration = ac_duration (audioCanvas inp'),
                                    man_width = width,
                                    man_height = height,
                                    man_page_id = page_id page,
                                    man_items = Audio fixed # paintings,
                                    man_annotations_id = ''https://example/image-anno/0'',
                                    man_annotations = highlights\<rparr>, inp')
                          | _ \<Rightarrow> Inl TypeError))))
      | _ \<Rightarrow> Inl TypeError)"

section \<open>The whole run\<close>

text \<open>
  The script from the two annotation collections to the document: the join, the two
  partitions, the assembler.  \<open>canvasToServiceId\<close> and \<open>resourceMap\<close> come from the image
  manifest like the tables of the environment.
\<close>

definition generate_manifest ::
  "environment \<Rightarrow> (string \<times> string) list \<Rightarrow> (string \<times> Resource) list
     \<Rightarrow> (string \<times> annotations) list \<Rightarrow> (string \<times> annotations) list \<Rightarrow> AudioCanvas
     \<Rightarrow> js_failure + Manifest" where
  "generate_manifest env canvasToServiceId' resourceMap' audioAnnotations imageAnnotations audioCanvas' =
     (case join env audioAnnotations imageAnnotations of
        Inl e \<Rightarrow> Inl e
      | Inr st \<Rightarrow>
         (case orderCanvasMapping (page_ranges st) of
            Inl e \<Rightarrow> Inl e
          | Inr orderedCanvases' \<Rightarrow>
             (case orderAnnotationMapping (note_records st) of
                Inl e \<Rightarrow> Inl e
              | Inr filteredAnnotationMapping' \<Rightarrow>
                 (case newManifest env
                         \<lparr>audioCanvas = audioCanvas',
                          orderedCanvases = orderedCanvases',
                          filteredAnnotationMapping = filteredAnnotationMapping',
                          canvasToServiceId = canvasToServiceId',
                          resourceMap = resourceMap',
                          mapping = js_mapping st,
                          store = js_store st\<rparr> of
                    Inl e \<Rightarrow> Inl e
                  | Inr (manifest, inputs) \<Rightarrow> Inr manifest))))"

section \<open>Notions used to state the properties\<close>

text \<open>A string occurs in another one.\<close>

fun contains :: "string \<Rightarrow> string \<Rightarrow> bool" where
  "contains p [] = starts_with p []"
| "contains p (c # cs) = (starts_with p (c # cs) \<or> contains p cs)"

text \<open>
  The numbers other than \<open>NaN\<close> in their order, as keys of a linear order:
  \<open>-Infinity\<close>, the finite values, \<open>Infinity\<close>.
\<close>

fun num_key :: "number \<Rightarrow> int \<times> rat" where
  "num_key NInf = (- 1, 0)"
| "num_key (Fin x) = (0, x)"
| "num_key PInf = (1, 0)"
| "num_key NaN = (2, 0)"

abbreviation min_key :: "entry \<Rightarrow> int \<times> rat" where
  "min_key e \<equiv> num_key (originalMin e)"

text \<open>A value that takes part in the order: a double or an infinity, not \<open>NaN\<close>.\<close>

definition orderable :: "number \<Rightarrow> bool" where
  "orderable v = (v \<noteq> NaN \<and> is_double v)"

text \<open>
  The operator \<open>==\<close> on two numbers: \<open>NaN\<close> is equal to nothing, itself included.
\<close>

definition js_equals :: "number \<Rightarrow> number \<Rightarrow> bool" where
  "js_equals a b = (a \<noteq> NaN \<and> b \<noteq> NaN \<and> a = b)"

text \<open>
  What \<open>sort\<close> may leave in the array.  For a consistent comparator it is the stable
  order; otherwise the language leaves the order to the implementation, and the array
  holds its elements in some order.
\<close>

definition possible_sort :: "('a \<Rightarrow> 'a \<Rightarrow> number) \<Rightarrow> 'a list \<Rightarrow> 'a list \<Rightarrow> bool" where
  "possible_sort cmp xs ys =
     (mset ys = mset xs \<and> (consistent_comparator cmp xs \<longrightarrow> ys = stable_sort cmp xs))"

text \<open>
  The statements of \<open>orderCanvasMapping\<close> and \<open>orderAnnotationMapping\<close> that follow the
  sort, run on the array the sort has left.
\<close>

definition after_sort :: "entry list \<Rightarrow> js_failure + segment list" where
  "after_sort sorted_entries =
     (if length sorted_entries = 0 then Inr [] else reconcile_loop 0 sorted_entries [])"

text \<open>The magnitude from which a rounded result is an infinity.\<close>

definition overflow_threshold :: rat where
  "overflow_threshold = 2 powi 1024"

text \<open>
  A finite double of magnitude below \<open>2^1023\<close>: the sum of two such values does not
  overflow.
\<close>

definition in_range :: "number \<Rightarrow> bool" where
  "in_range v = (case v of Fin x \<Rightarrow> fl x = Fin x \<and> \<bar>x\<bar> < 2 powi 1023 | _ \<Rightarrow> False)"

text \<open>The midpoint the loop takes between two neighbours.\<close>

definition midpoint :: "number \<Rightarrow> number \<Rightarrow> number" where
  "midpoint a b = js_div (js_add a b) (Fin 2)"

text \<open>
  The segments of a sorted list of entries, given the start of the first: each one ends
  at the midpoint to its successor, the last at its own maximum, and each starts where
  its predecessor ends.
\<close>

fun segments_from :: "number \<Rightarrow> entry list \<Rightarrow> segment list" where
  "segments_from s [] = []"
| "segments_from s [e] = [\<lparr>seg_id = entry_id e, seg_start = s, seg_end = originalMax e\<rparr>]"
| "segments_from s (e # n # es) =
     \<lparr>seg_id = entry_id e, seg_start = s, seg_end = midpoint (originalMax e) (originalMin n)\<rparr>
       # segments_from (midpoint (originalMax e) (originalMin n)) (n # es)"

definition segments :: "entry list \<Rightarrow> segment list" where
  "segments es = (case es of [] \<Rightarrow> [] | e # _ \<Rightarrow> segments_from (originalMin e) es)"

text \<open>
  Triples the reconciler can turn into a partition: the values are finite doubles in range
  with \<open>observedMin \<le> observedMax\<close>, and a triple that starts no later than another one
  also ends no later, so that no observed range reaches beyond a range that starts after
  it.
\<close>

definition well_ordered_ranges :: "entry list \<Rightarrow> bool" where
  "well_ordered_ranges es =
     ((\<forall>e\<in>set es. in_range (originalMin e) \<and> in_range (originalMax e)
          \<and> num_le (originalMin e) (originalMax e))
      \<and> (\<forall>e\<in>set es. \<forall>e'\<in>set es.
            num_le (originalMin e) (originalMin e') \<longrightarrow> num_le (originalMax e) (originalMax e')))"

text \<open>
  The relations the proof follows along the sorted triples: a triple that is in range and
  proper, a triple that lies below another in both bounds, and a start that stays under
  every midpoint taken at or after a triple.
\<close>

abbreviation below :: "entry \<Rightarrow> entry \<Rightarrow> bool" where
  "below a b \<equiv> num_le (originalMin a) (originalMin b) \<and> num_le (originalMax a) (originalMax b)"

abbreviation proper :: "entry \<Rightarrow> bool" where
  "proper e \<equiv> in_range (originalMin e) \<and> in_range (originalMax e)
     \<and> num_le (originalMin e) (originalMax e)"

abbreviation under :: "number \<Rightarrow> entry \<Rightarrow> bool" where
  "under s e \<equiv> \<forall>x y. num_le (originalMax e) (Fin x) \<longrightarrow> num_le (originalMin e) (Fin y)
       \<longrightarrow> num_le s (midpoint (Fin x) (Fin y))"

text \<open>
  A partition of the timeline of the triples: one segment for each triple, starts ascending,
  every segment an interval, no two segments overlapping, each segment ending where the
  next one starts, and the whole reaching from the least \<open>observedMin\<close> to the greatest
  \<open>observedMax\<close>.
\<close>

definition partition_of :: "entry list \<Rightarrow> segment list \<Rightarrow> bool" where
  "partition_of es segs =
     (length segs = length es
      \<and> (\<forall>i j. i < j \<and> j < length segs \<longrightarrow> num_le (seg_start (segs ! i)) (seg_start (segs ! j)))
      \<and> (\<forall>i. i < length segs \<longrightarrow> num_le (seg_start (segs ! i)) (seg_end (segs ! i)))
      \<and> (\<forall>i j. i < j \<and> j < length segs \<longrightarrow> num_le (seg_end (segs ! i)) (seg_start (segs ! j)))
      \<and> (\<forall>i. Suc i < length segs \<longrightarrow> seg_end (segs ! i) = seg_start (segs ! Suc i))
      \<and> (es \<noteq> [] \<longrightarrow>
            seg_start (segs ! 0) \<in> originalMin ` set es
          \<and> (\<forall>e\<in>set es. num_le (seg_start (segs ! 0)) (originalMin e))
          \<and> seg_end (last segs) \<in> originalMax ` set es
          \<and> (\<forall>e\<in>set es. num_le (originalMax e) (seg_end (last segs)))))"

section \<open>The loop computes the segments\<close>

lemma reconcile_loop_step:
  assumes "i < length entries" "length result = i"
  shows "reconcile_loop i entries result =
     reconcile_loop (Suc i) entries
       (result @ [\<lparr>seg_id = entry_id (entries ! i),
                   seg_start = (if i = 0 then originalMin (entries ! i) else seg_end (last result)),
                   seg_end = (if Suc i < length entries
                              then midpoint (originalMax (entries ! i)) (originalMin (entries ! Suc i))
                              else originalMax (entries ! i))\<rparr>])"
proof (cases "i = 0")
  case True
  with assms show ?thesis
    by (subst reconcile_loop.simps) (simp add: Let_def midpoint_def)
next
  case False
  with assms have "result \<noteq> []" by auto
  then have "last result = result ! (i - 1)"
    using assms by (simp add: last_conv_nth)
  with assms False show ?thesis
    by (subst reconcile_loop.simps) (simp add: Let_def midpoint_def)
qed

lemma reconcile_loop_done:
  "length entries \<le> i \<Longrightarrow> reconcile_loop i entries result = Inr result"
  by (subst reconcile_loop.simps) simp

lemma segments_from_drop:
  assumes "i < length entries"
  shows "segments_from s (drop i entries) =
     \<lparr>seg_id = entry_id (entries ! i), seg_start = s,
      seg_end = (if Suc i < length entries
                 then midpoint (originalMax (entries ! i)) (originalMin (entries ! Suc i))
                 else originalMax (entries ! i))\<rparr>
     # segments_from (if Suc i < length entries
                      then midpoint (originalMax (entries ! i)) (originalMin (entries ! Suc i))
                      else originalMax (entries ! i)) (drop (Suc i) entries)"
proof -
  have d: "drop i entries = entries ! i # drop (Suc i) entries"
    using assms by (simp add: Cons_nth_drop_Suc)
  show ?thesis
  proof (cases "Suc i < length entries")
    case True
    then have "drop (Suc i) entries = entries ! Suc i # drop (Suc (Suc i)) entries"
      by (simp add: Cons_nth_drop_Suc)
    with d True show ?thesis by simp
  next
    case False
    then have "drop (Suc i) entries = []" by simp
    with d False show ?thesis by simp
  qed
qed

lemma reconcile_loop_segments:
  "length result = i \<Longrightarrow> i \<le> length entries \<Longrightarrow>
   reconcile_loop i entries result =
     Inr (result @ segments_from (if i = 0 then originalMin (hd entries) else seg_end (last result))
                     (drop i entries))"
proof (induction "length entries - i" arbitrary: i result)
  case 0
  then show ?case by (simp add: reconcile_loop_done)
next
  case (Suc k)
  then have lt: "i < length entries" by simp
  have hd0: "i = 0 \<Longrightarrow> originalMin (hd entries) = originalMin (entries ! i)"
    using lt by (simp add: hd_conv_nth)
  have "k = length entries - Suc i" using Suc.hyps(2) by simp
  from Suc.hyps(1)[OF this, of "result @ [\<lparr>seg_id = entry_id (entries ! i),
                   seg_start = (if i = 0 then originalMin (entries ! i) else seg_end (last result)),
                   seg_end = (if Suc i < length entries
                              then midpoint (originalMax (entries ! i)) (originalMin (entries ! Suc i))
                              else originalMax (entries ! i))\<rparr>]"]
  show ?case
    using lt Suc.prems hd0
    by (simp add: reconcile_loop_step[OF lt Suc.prems(1)] segments_from_drop[OF lt])
qed

lemma reconcile_loop_from_start:
  "reconcile_loop 0 entries [] = Inr (segments entries)"
  using reconcile_loop_segments[of "[]" 0 entries]
  by (cases entries) (simp_all add: segments_def)

lemma reconcile_eq:
  "reconcile entries =
     (if consistent_comparator by_originalMin entries
      then Inr (segments (stable_sort by_originalMin entries)) else Inl UnspecifiedOrder)"
  by (simp add: reconcile_def Array_sort_def reconcile_loop_from_start segments_def)

section \<open>Rounding and the sign of a difference\<close>

lemma pow2_pos [simp]: "(0::rat) < 2 powi k"
  by (simp add: power_int_def)

lemma pow2_less_iff [simp]: "(2::rat) powi a < 2 powi b \<longleftrightarrow> a < b"
proof
  assume l: "(2::rat) powi a < 2 powi b"
  show "a < b"
  proof (rule ccontr)
    assume "\<not> a < b"
    then have "b \<le> a" by simp
    then have "(2::rat) powi b \<le> 2 powi a" by (intro power_int_increasing) auto
    with l show False by simp
  qed
next
  assume "a < b"
  then show "(2::rat) powi a < 2 powi b" by (intro power_int_strict_increasing) auto
qed

lemma pow2_le_iff [simp]: "(2::rat) powi a \<le> 2 powi b \<longleftrightarrow> a \<le> b"
  using pow2_less_iff[of b a] by (simp only: not_less[symmetric])

lemma bitlen_powi_bounds:
  assumes "0 < p"
  shows "(2::rat) powi (bitlen p - 1) \<le> of_int p" "of_int p < (2::rat) powi (bitlen p)"
proof -
  from bitlen_bounds[OF assms]
  have lo: "2 ^ nat (bitlen p - 1) \<le> p" and hi: "p < 2 ^ nat (bitlen p)" by auto
  have b1: "1 \<le> bitlen p" using assms by (auto simp: bitlen_alt_def)
  have "(2::rat) powi (bitlen p - 1) = 2 ^ nat (bitlen p - 1)"
    using b1 by (simp add: power_int_def)
  also have "\<dots> = of_int (2 ^ nat (bitlen p - 1))" by simp
  also have "\<dots> \<le> of_int p" using lo by (simp only: of_int_le_iff)
  finally show "(2::rat) powi (bitlen p - 1) \<le> of_int p" .
  have "(of_int p :: rat) < of_int (2 ^ nat (bitlen p))" using hi by (simp only: of_int_less_iff)
  also have "\<dots> = 2 ^ nat (bitlen p)" by simp
  also have "\<dots> = (2::rat) powi (bitlen p)"
    using b1 by (simp add: power_int_def)
  finally show "of_int p < (2::rat) powi (bitlen p)" .
qed

lemma ilog2_bounds:
  assumes "0 < x"
  shows "2 powi (ilog2 x) \<le> x" "x < 2 powi (ilog2 x + 1)"
proof -
  obtain p q where pq: "quotient_of x = (p, q)" by (cases "quotient_of x")
  have q0: "0 < q" using pq by (rule quotient_of_denom_pos)
  have x: "x = of_int p / of_int q" using pq by (rule quotient_of_div)
  have p0: "0 < p" using assms x q0 by (simp add: zero_less_divide_iff)
  define d where "d = bitlen p - bitlen q"
  note bp = bitlen_powi_bounds[OF p0] and bq = bitlen_powi_bounds[OF q0]
  have qpos: "(0::rat) < of_int q" using q0 by simp
  have pw: "(0::rat) < 2 powi k" for k by simp
  have p0': "(0::rat) \<le> of_int p" "(0::rat) < of_int p" using p0 by simp_all
  have "x < 2 powi (bitlen p) / 2 powi (bitlen q - 1)"
    unfolding x using bp bq qpos pw[of "bitlen q - 1"] p0'
    by (intro frac_less) auto
  also have "\<dots> = 2 powi (bitlen p - (bitlen q - 1))"
    by (simp add: power_int_diff)
  also have "bitlen p - (bitlen q - 1) = d + 1"
    by (simp add: d_def)
  finally have up: "x < 2 powi (d + 1)" .
  have "2 powi (bitlen p - 1) / 2 powi (bitlen q) < x"
    unfolding x using bp bq qpos pw[of "bitlen p - 1"] p0'
    by (intro frac_less2) auto
  moreover have "2 powi (bitlen p - 1) / (2::rat) powi (bitlen q) = 2 powi (bitlen p - 1 - bitlen q)"
    by (simp add: power_int_diff)
  moreover have "bitlen p - 1 - bitlen q = d - 1"
    by (simp add: d_def)
  ultimately have lo: "2 powi (d - 1) < x" by simp
  have il: "ilog2 x = (if 2 powi d \<le> x then d else d - 1)"
    by (simp add: ilog2_def pq d_def Let_def)
  show "2 powi (ilog2 x) \<le> x" using lo by (simp add: il)
  show "x < 2 powi (ilog2 x + 1)" using up by (simp add: il)
qed

lemma ilog2_unique:
  assumes "2 powi e \<le> x" "x < 2 powi (e + 1)"
  shows "ilog2 x = e"
proof -
  have x0: "0 < x" using assms(1) pow2_pos[of e] by linarith
  note b = ilog2_bounds[OF x0]
  have "2 powi e < (2::rat) powi (ilog2 x + 1)" using assms(1) b(2) by linarith
  then have 1: "e < ilog2 x + 1" by simp
  have "2 powi (ilog2 x) < (2::rat) powi (e + 1)" using assms(2) b(1) by linarith
  then have 2: "ilog2 x < e + 1" by simp
  from 1 2 show ?thesis by simp
qed

lemma expo_ge: "- 1022 \<le> expo x"
  by (simp add: expo_def)

lemma ulp_pos [simp]: "0 < ulp x"
  by (simp add: ulp_def)

lemma min_subnormal_pos [simp]: "0 < min_subnormal"
  by (simp add: min_subnormal_def del: power_int_numeral_neg_numeral)

lemma ulp_multiple: "\<exists>k::int. 0 < k \<and> ulp x = of_int k * min_subnormal"
proof -
  have "(2::rat) powi (expo x + 1022 + (- 1074)) = 2 powi (expo x + 1022) * 2 powi (- 1074)"
    by (rule power_int_add) simp
  moreover have "expo x + 1022 + (- 1074) = expo x - 52" by simp
  ultimately have "ulp x = 2 powi (expo x + 1022) * min_subnormal"
    by (simp only: ulp_def min_subnormal_def)
  also have "(2::rat) powi (expo x + 1022) = of_int (2 ^ nat (expo x + 1022))"
    using expo_ge[of x] by (simp add: power_int_def)
  finally have "ulp x = of_int (2 ^ nat (expo x + 1022)) * min_subnormal" .
  moreover have "(0::int) < 2 ^ nat (expo x + 1022)" by simp
  ultimately show ?thesis by blast
qed

lemma fl_cases:
  obtains (fin) "fl x = Fin (round_to_ulp x)"
  | (pinf) "fl x = PInf" "0 < round_to_ulp x"
  | (ninf) "fl x = NInf" "\<not> 0 < round_to_ulp x"
proof -
  have "fl x = Fin (round_to_ulp x) \<or> (fl x = PInf \<and> 0 < round_to_ulp x)
        \<or> (fl x = NInf \<and> \<not> 0 < round_to_ulp x)"
    by (simp add: fl_def Let_def)
  then show thesis using that by blast
qed

lemma double_multiple:
  assumes "fl x = Fin x"
  shows "\<exists>k::int. x = of_int k * min_subnormal"
proof -
  from assms have "x = of_int (rne (x / ulp x)) * ulp x"
    by (cases x rule: fl_cases) (auto simp: round_to_ulp_def)
  moreover obtain k :: int where "ulp x = of_int k * min_subnormal"
    using ulp_multiple by blast
  ultimately have "x = of_int (rne (x / ulp x) * k) * min_subnormal"
    by simp
  then show ?thesis ..
qed

lemma rne_of_int [simp]: "rne (of_int k) = k"
  by (simp add: rne_def)

lemma rne_mono: "x \<le> y \<Longrightarrow> rne x \<le> rne y"
proof -
  assume xy: "x \<le> y"
  then have fm: "\<lfloor>x\<rfloor> \<le> \<lfloor>y\<rfloor>" by (rule floor_mono)
  show ?thesis
  proof (cases "\<lfloor>x\<rfloor> = \<lfloor>y\<rfloor>")
    case True
    with xy show ?thesis
      by (auto simp: rne_def Let_def)
  next
    case False
    with fm have "\<lfloor>x\<rfloor> + 1 \<le> \<lfloor>y\<rfloor>" by simp
    moreover have "rne x \<le> \<lfloor>x\<rfloor> + 1" by (simp add: rne_def Let_def)
    moreover have "\<lfloor>y\<rfloor> \<le> rne y" by (simp add: rne_def Let_def)
    ultimately show ?thesis by linarith
  qed
qed

lemma ulp_le:
  assumes "min_subnormal \<le> \<bar>q\<bar>"
  shows "ulp q \<le> \<bar>q\<bar>"
proof (cases "ilog2 \<bar>q\<bar> \<le> - 1022")
  case True
  then have "expo q = - 1022" by (simp add: expo_def)
  then have "ulp q = min_subnormal" by (simp add: ulp_def min_subnormal_def)
  then show ?thesis using assms by simp
next
  case False
  have q0: "0 < \<bar>q\<bar>" using assms min_subnormal_pos by linarith
  then have "q \<noteq> 0" by simp
  with False have e: "expo q = ilog2 \<bar>q\<bar>" by (simp add: expo_def)
  have "ulp q \<le> 2 powi (ilog2 \<bar>q\<bar>)"
    unfolding ulp_def e by simp
  also have "\<dots> \<le> \<bar>q\<bar>" using ilog2_bounds(1)[OF q0] .
  finally show ?thesis .
qed

lemma fl_positive:
  assumes "min_subnormal \<le> q"
  shows "is_positive (fl q)"
proof -
  have q0: "0 < q" using assms min_subnormal_pos by linarith
  then have "ulp q \<le> q" using ulp_le[of q] assms by simp
  then have "1 \<le> q / ulp q" by (simp add: le_divide_eq)
  then have "rne 1 \<le> rne (q / ulp q)" by (rule rne_mono)
  then have "1 \<le> rne (q / ulp q)" using rne_of_int[of 1] by simp
  then have "0 < round_to_ulp q"
    by (simp add: zero_less_mult_iff round_to_ulp_def)
  then show ?thesis
    by (cases q rule: fl_cases) auto
qed

lemma fl_negative:
  assumes "q \<le> - min_subnormal"
  shows "is_negative (fl q)"
proof -
  have q0: "q < 0" using assms min_subnormal_pos by linarith
  then have "ulp q \<le> - q" using ulp_le[of q] assms by simp
  then have "q / ulp q \<le> - 1" by (simp add: divide_le_eq)
  then have "rne (q / ulp q) \<le> rne (- 1)" by (rule rne_mono)
  then have "rne (q / ulp q) \<le> - 1" using rne_of_int[of "- 1"] by simp
  then have r: "round_to_ulp q < 0"
    by (simp add: mult_less_0_iff round_to_ulp_def)
  show ?thesis
  proof (cases q rule: fl_cases)
    case fin
    with r show ?thesis by simp
  next
    case pinf
    with r show ?thesis by simp
  next
    case ninf
    then show ?thesis by simp
  qed
qed

lemma ilog2_zero: "ilog2 0 = - 2"
proof -
  have "ilog2 0 = (- 1) - 1" by code_simp
  then show ?thesis by simp
qed

lemma round_zero [simp]: "round_to_ulp 0 = 0"
  using rne_of_int[of 0] by (simp add: round_to_ulp_def)

lemma fl_zero [simp]: "fl 0 = Fin 0"
  by (simp add: fl_def ilog2_zero)

lemma fl_diff_sign:
  assumes "fl x = Fin x" "fl y = Fin y"
  shows "is_positive (fl (x - y)) \<longleftrightarrow> y < x" "is_negative (fl (x - y)) \<longleftrightarrow> x < y"
proof -
  obtain k l :: int where x: "x = of_int k * min_subnormal" and y: "y = of_int l * min_subnormal"
    using double_multiple[OF assms(1)] double_multiple[OF assms(2)] by blast
  have d: "x - y = of_int (k - l) * min_subnormal"
    by (simp add: x y algebra_simps)
  have m: "0 < min_subnormal" by simp
  have pos: "is_positive (fl (x - y)) \<and> \<not> is_negative (fl (x - y))" if "y < x"
  proof -
    from that have "l < k" using m by (simp add: x y)
    then have "1 \<le> k - l" by simp
    then have "(1::rat) \<le> of_int (k - l)" by (simp only: of_int_1_le_iff)
    then have "1 * min_subnormal \<le> (of_int (k - l) :: rat) * min_subnormal"
      by (rule mult_right_mono[OF _ less_imp_le[OF m]])
    then have "is_positive (fl (x - y))" using fl_positive[of "x - y"] d by simp
    then show ?thesis by (cases "fl (x - y)") auto
  qed
  have neg: "is_negative (fl (x - y)) \<and> \<not> is_positive (fl (x - y))" if "x < y"
  proof -
    from that have "k < l" using m by (simp add: x y)
    then have "k - l \<le> - 1" by simp
    then have "(of_int (k - l) :: rat) \<le> - 1" by (metis of_int_le_iff of_int_minus of_int_1)
    then have "(of_int (k - l) :: rat) * min_subnormal \<le> (- 1) * min_subnormal"
      by (rule mult_right_mono[OF _ less_imp_le[OF m]])
    then have "is_negative (fl (x - y))" using fl_negative[of "x - y"] d by simp
    then show ?thesis by (cases "fl (x - y)") auto
  qed
  have eq: "\<not> is_positive (fl (x - y)) \<and> \<not> is_negative (fl (x - y))" if "x = y"
    using that by simp
  show "is_positive (fl (x - y)) \<longleftrightarrow> y < x" using pos neg eq by (cases x y rule: linorder_cases) auto
  show "is_negative (fl (x - y)) \<longleftrightarrow> x < y" using pos neg eq by (cases x y rule: linorder_cases) auto
qed

subsection \<open>Rounding is monotone\<close>

lemma rne_neg: "rne (- z) = - rne z"
proof (cases "z = of_int \<lfloor>z\<rfloor>")
  case True
  then obtain k :: int where "z = of_int k" ..
  then have "- z = of_int (- k)" by simp
  then show ?thesis using \<open>z = of_int k\<close> by (metis rne_of_int)
next
  case False
  then have fl: "\<lfloor>- z\<rfloor> = - \<lfloor>z\<rfloor> - 1"
    by (simp add: floor_minus ceiling_altdef)
  have r: "0 < z - of_int \<lfloor>z\<rfloor>" "z - of_int \<lfloor>z\<rfloor> < 1"
    using False by linarith+
  show ?thesis
    unfolding rne_def Let_def fl using r
    by (auto simp: algebra_simps)
qed

lemma expo_neg [simp]: "expo (- x) = expo x"
  by (simp add: expo_def)

lemma ulp_neg [simp]: "ulp (- x) = ulp x"
  by (simp add: ulp_def)

lemma round_to_ulp_neg: "round_to_ulp (- x) = - round_to_ulp x"
  by (simp add: round_to_ulp_def rne_neg)

lemma expo_zero: "expo 0 = - 1022"
  by (simp add: expo_def)

lemma expo_upper: "\<bar>x\<bar> < 2 powi (expo x + 1)"
proof (cases "x = 0")
  case True
  then show ?thesis by simp
next
  case False
  then have "0 < \<bar>x\<bar>" by simp
  then have "\<bar>x\<bar> < 2 powi (ilog2 \<bar>x\<bar> + 1)" by (rule ilog2_bounds(2))
  also have "\<dots> \<le> 2 powi (expo x + 1)" using False by (simp add: expo_def)
  finally show ?thesis .
qed

lemma expo_lower: "- 1022 < expo x \<Longrightarrow> 2 powi (expo x) \<le> \<bar>x\<bar>"
proof -
  assume a: "- 1022 < expo x"
  then have "x \<noteq> 0" using expo_zero by auto
  then have p: "0 < \<bar>x\<bar>" by simp
  from a \<open>x \<noteq> 0\<close> have "expo x = ilog2 \<bar>x\<bar>" by (simp add: expo_def max_def split: if_splits)
  then show ?thesis using ilog2_bounds(1)[OF p] by simp
qed

lemma expo_mono: "\<bar>x\<bar> \<le> \<bar>y\<bar> \<Longrightarrow> expo x \<le> expo y"
proof (rule ccontr)
  assume le: "\<bar>x\<bar> \<le> \<bar>y\<bar>" and "\<not> expo x \<le> expo y"
  then have lt: "expo y < expo x" by simp
  then have "- 1022 < expo x" using expo_ge[of y] by linarith
  then have "2 powi (expo x) \<le> \<bar>x\<bar>" by (rule expo_lower)
  also have "\<dots> \<le> \<bar>y\<bar>" by (rule le)
  also have "\<dots> < 2 powi (expo y + 1)" by (rule expo_upper)
  finally have "expo x < expo y + 1" by simp
  with lt show False by simp
qed

lemma round_le_grid:
  assumes "x \<le> of_int k * ulp x"
  shows "round_to_ulp x \<le> of_int k * ulp x"
proof -
  have "x / ulp x \<le> of_int k" using assms by (simp add: divide_le_eq)
  then have "rne (x / ulp x) \<le> rne (of_int k)" by (rule rne_mono)
  then have "(of_int (rne (x / ulp x)) :: rat) \<le> of_int k" by simp
  then show ?thesis
    unfolding round_to_ulp_def by (rule mult_right_mono) (simp add: less_imp_le)
qed

lemma round_ge_grid:
  assumes "of_int k * ulp x \<le> x"
  shows "of_int k * ulp x \<le> round_to_ulp x"
proof -
  have "of_int k \<le> x / ulp x" using assms by (simp add: le_divide_eq)
  then have "rne (of_int k) \<le> rne (x / ulp x)" by (rule rne_mono)
  then have "(of_int k :: rat) \<le> of_int (rne (x / ulp x))" by simp
  then show ?thesis
    unfolding round_to_ulp_def by (rule mult_right_mono) (simp add: less_imp_le)
qed

lemma pow2_int: "0 \<le> k \<Longrightarrow> (2::rat) powi k = of_int (2 ^ nat k)"
  by (simp add: power_int_def)

lemma round_mono_nonneg:
  assumes "0 \<le> x" "x \<le> y"
  shows "round_to_ulp x \<le> round_to_ulp y"
proof -
  have e: "expo x \<le> expo y" using assms by (intro expo_mono) simp
  show ?thesis
  proof (cases "expo x = expo y")
    case True
    then have u: "ulp x = ulp y" by (simp add: ulp_def)
    have "x / ulp y \<le> y / ulp y" using assms(2) by (simp add: divide_right_mono less_imp_le)
    then have "rne (x / ulp y) \<le> rne (y / ulp y)" by (rule rne_mono)
    then have "(of_int (rne (x / ulp y)) :: rat) \<le> of_int (rne (y / ulp y))" by simp
    then show ?thesis
      unfolding round_to_ulp_def u by (rule mult_right_mono) (simp add: less_imp_le)
  next
    case False
    with e have lt: "expo x < expo y" by simp
    define B :: rat where "B = 2 powi (expo y)"
    have y: "B \<le> y"
      using expo_lower[of y] lt expo_ge[of x] assms by (simp add: B_def)
    have x: "x \<le> B"
    proof -
      have "x < 2 powi (expo x + 1)" using expo_upper[of x] assms(1) by simp
      also have "\<dots> \<le> B" using lt by (simp add: B_def)
      finally show ?thesis by simp
    qed
    have Bx: "B = of_int (2 ^ nat (expo y - expo x + 52)) * ulp x"
    proof -
      have "(2::rat) powi (expo y - expo x + 52 + (expo x - 52)) = 2 powi (expo y - expo x + 52) * 2 powi (expo x - 52)"
        by (rule power_int_add) simp
      moreover have "expo y - expo x + 52 + (expo x - 52) = expo y" by simp
      ultimately have "B = 2 powi (expo y - expo x + 52) * ulp x"
        by (simp only: B_def ulp_def)
      then show ?thesis using lt by (simp add: pow2_int)
    qed
    have By: "B = of_int (2 ^ 52) * ulp y"
    proof -
      have "(2::rat) powi (52 + (expo y - 52)) = 2 powi 52 * 2 powi (expo y - 52)"
        by (rule power_int_add) simp
      then have "B = 2 powi 52 * ulp y" by (simp add: B_def ulp_def)
      then show ?thesis by (simp only: pow2_int[of 52, simplified] of_int_power of_int_numeral power_int_numeral)
    qed
    have "round_to_ulp x \<le> B"
      using round_le_grid[of x "2 ^ nat (expo y - expo x + 52)"] x Bx by simp
    moreover have "B \<le> round_to_ulp y"
      using round_ge_grid[of "2 ^ 52" y] y By by simp
    ultimately show ?thesis by simp
  qed
qed

lemma round_mono: "x \<le> y \<Longrightarrow> round_to_ulp x \<le> round_to_ulp y"
proof -
  assume xy: "x \<le> y"
  consider "0 \<le> x" | "y \<le> 0" | "x < 0" "0 < y" by linarith
  then show ?thesis
  proof cases
    case 1
    then show ?thesis using xy by (rule round_mono_nonneg)
  next
    case 2
    then have "round_to_ulp (- y) \<le> round_to_ulp (- x)"
      using xy by (intro round_mono_nonneg) auto
    then show ?thesis by (simp add: round_to_ulp_neg)
  next
    case 3
    have "round_to_ulp (- 0) \<le> round_to_ulp (- x)"
      using 3 by (intro round_mono_nonneg) auto
    then have "round_to_ulp x \<le> 0" by (simp add: round_to_ulp_neg)
    moreover have "round_to_ulp 0 \<le> round_to_ulp y"
      using 3 by (intro round_mono_nonneg) auto
    ultimately show ?thesis by simp
  qed
qed

lemma overflow_threshold_pos [simp]: "0 < overflow_threshold"
  by (simp only: overflow_threshold_def pow2_pos)

lemma ilog2_less_iff:
  assumes "0 < r"
  shows "ilog2 r < k \<longleftrightarrow> r < 2 powi k"
proof
  assume "ilog2 r < k"
  then have "ilog2 r + 1 \<le> k" by simp
  then have "(2::rat) powi (ilog2 r + 1) \<le> 2 powi k" by (simp only: pow2_le_iff)
  with ilog2_bounds(2)[OF assms] show "r < 2 powi k" by linarith
next
  assume "r < 2 powi k"
  with ilog2_bounds(1)[OF assms] have "(2::rat) powi (ilog2 r) < 2 powi k" by linarith
  then show "ilog2 r < k" by (simp only: pow2_less_iff)
qed

lemma finite_iff: "ilog2 \<bar>r\<bar> < 1024 \<longleftrightarrow> \<bar>r\<bar> < overflow_threshold"
proof (cases "r = 0")
  case True
  then show ?thesis by (simp add: ilog2_zero)
next
  case False
  then have "0 < \<bar>r\<bar>" by simp
  from ilog2_less_iff[OF this, of 1024] show ?thesis
    by (simp only: overflow_threshold_def)
qed

lemma fl_alt:
  "fl x = (if \<bar>round_to_ulp x\<bar> < overflow_threshold then Fin (round_to_ulp x)
           else if 0 < round_to_ulp x then PInf else NInf)"
  by (simp only: fl_def Let_def finite_iff)

lemma num_le_refl [simp]: "a \<noteq> NaN \<Longrightarrow> num_le a a"
  by (cases a) auto

lemma num_le_trans: "num_le a b \<Longrightarrow> num_le b c \<Longrightarrow> num_le a c"
  by (cases a; cases b; cases c) auto

lemma num_le_not_NaN: "num_le a b \<Longrightarrow> a \<noteq> NaN \<and> b \<noteq> NaN"
  by (cases a; cases b) auto

lemma num_le_key: "a \<noteq> NaN \<Longrightarrow> b \<noteq> NaN \<Longrightarrow> num_le a b \<longleftrightarrow> num_key a \<le> num_key b"
  by (cases a; cases b) auto

lemma fl_not_NaN [simp]: "fl x \<noteq> NaN"
  by (simp add: fl_def Let_def)

lemma num_le_PInf [simp]: "v \<noteq> NaN \<Longrightarrow> num_le v PInf"
  by (cases v) auto

lemma num_le_NInf [simp]: "v \<noteq> NaN \<Longrightarrow> num_le NInf v"
  by (cases v) auto

lemma fl_mono: "x \<le> y \<Longrightarrow> num_le (fl x) (fl y)"
proof -
  assume "x \<le> y"
  then have r: "round_to_ulp x \<le> round_to_ulp y" by (rule round_mono)
  have t: "0 < overflow_threshold" by simp
  show ?thesis
    unfolding fl_alt using r t by auto
qed

lemma half_mono:
  "num_le a b \<Longrightarrow> num_le (js_div a (Fin 2)) (js_div b (Fin 2))"
  by (cases a; cases b) (auto simp: fl_mono divide_right_mono intro: num_le_trans)

lemma midpoint_mono:
  assumes "a \<le> a'" "b \<le> b'"
  shows "num_le (midpoint (Fin a) (Fin b)) (midpoint (Fin a') (Fin b'))"
proof -
  have "a + b \<le> a' + b'" using assms by simp
  then have "num_le (fl (a + b)) (fl (a' + b'))" by (rule fl_mono)
  then show ?thesis
    unfolding midpoint_def js_add.simps by (rule half_mono)
qed

lemma rne_unique:
  assumes "\<bar>z - of_int n\<bar> < 1 / 2"
  shows "rne z = n"
proof (cases "of_int n \<le> z")
  case True
  then have "\<lfloor>z\<rfloor> = n" using assms by (intro floor_unique) auto
  then show ?thesis using assms True by (simp add: rne_def Let_def)
next
  case False
  then have "\<lfloor>z\<rfloor> = n - 1" using assms by (intro floor_unique) auto
  then show ?thesis using assms False by (simp add: rne_def Let_def)
qed

lemma abs_pow2_bound:
  assumes "\<bar>n\<bar> < 2 ^ 53"
  shows "\<bar>of_int n * 2 powi e\<bar> < (2::rat) powi (e + 53)"
proof -
  have "(\<bar>of_int n\<bar> :: rat) < 2 ^ 53"
    using assms by (metis of_int_abs of_int_less_iff of_int_numeral of_int_power)
  then have "\<bar>of_int n\<bar> * 2 powi e < 2 ^ 53 * (2::rat) powi e"
    by (rule mult_strict_right_mono) simp
  moreover have "(2::rat) powi (53 + e) = 2 powi 53 * 2 powi e"
    by (rule power_int_add) simp
  ultimately show ?thesis
    by (simp add: abs_mult add.commute)
qed

lemma fl_exact:
  assumes "\<bar>n\<bar> < 2 ^ 53" "- 1074 \<le> e" "e \<le> 971"
  shows "fl (of_int n * 2 powi e) = Fin (of_int n * 2 powi e)"
proof (cases "n = 0")
  case True
  then show ?thesis by simp
next
  case False
  define x :: rat where "x = of_int n * 2 powi e"
  have x0: "x \<noteq> 0" using False by (simp add: x_def)
  have xb: "\<bar>x\<bar> < 2 powi (e + 53)"
    unfolding x_def using assms(1) by (rule abs_pow2_bound)
  have ex: "expo x \<le> e + 52"
  proof (rule ccontr)
    assume "\<not> expo x \<le> e + 52"
    then have g: "e + 52 < expo x" by simp
    then have "- 1022 < expo x" using assms(2) by simp
    then have "2 powi (expo x) \<le> \<bar>x\<bar>" by (rule expo_lower)
    with xb have "(2::rat) powi (expo x) < 2 powi (e + 53)" by linarith
    then have "expo x < e + 53" by (simp only: pow2_less_iff)
    with g show False by simp
  qed
  define k where "k = e - (expo x - 52)"
  have k0: "0 \<le> k" using ex by (simp add: k_def)
  have "(2::rat) powi (k + (expo x - 52)) = 2 powi k * 2 powi (expo x - 52)"
    by (rule power_int_add) simp
  moreover have "k + (expo x - 52) = e" by (simp add: k_def)
  ultimately have pe: "(2::rat) powi e = 2 powi k * ulp x"
    by (simp only: ulp_def)
  have "x = of_int n * (2 powi k * ulp x)"
    unfolding pe[symmetric] by (rule x_def)
  then have xu: "x = of_int (n * 2 ^ nat k) * ulp x"
    using k0 by (simp add: pow2_int)
  have up: "ulp x \<noteq> 0" using ulp_pos[of x] by linarith
  have "x / ulp x = of_int (n * 2 ^ nat k)"
    using xu up by (metis nonzero_mult_div_cancel_right)
  then have "rne (x / ulp x) = n * 2 ^ nat k" by (simp only: rne_of_int)
  then have rx: "round_to_ulp x = x"
    unfolding round_to_ulp_def using xu by simp
  have "e + 53 \<le> 1024" using assms(3) by simp
  then have "(2::rat) powi (e + 53) \<le> 2 powi 1024"
    by (simp only: pow2_le_iff)
  with xb have "\<bar>x\<bar> < overflow_threshold"
    unfolding overflow_threshold_def by linarith
  then have "fl x = Fin x"
    using rx by (simp add: fl_alt)
  then show ?thesis by (simp only: x_def)
qed

lemma fl_nearest:
  assumes "2 powi (e + 52) \<le> \<bar>x\<bar>" "\<bar>x\<bar> < 2 powi (e + 53)" "- 1074 \<le> e" "e \<le> 970"
    and "\<bar>x / 2 powi e - of_int n\<bar> < 1 / 2"
  shows "fl x = Fin (of_int n * 2 powi e)"
proof -
  have "0 < \<bar>x\<bar>" using assms(1) pow2_pos[of "e + 52"] by linarith
  then have x0: "x \<noteq> 0" by simp
  have "ilog2 \<bar>x\<bar> = e + 52"
    using assms(1,2) by (intro ilog2_unique) (simp_all add: add.assoc)
  then have "expo x = e + 52" using x0 assms(3) by (simp add: expo_def)
  then have u: "ulp x = 2 powi e" by (simp add: ulp_def)
  have "rne (x / 2 powi e) = n" using assms(5) by (rule rne_unique)
  then have rx: "round_to_ulp x = of_int n * 2 powi e"
    by (simp add: round_to_ulp_def u)
  have pe: "(0::rat) < 2 powi e" by simp
  have "\<bar>x / 2 powi e\<bar> < 2 powi 53"
  proof -
    have "(2::rat) powi (53 + e) = 2 powi 53 * 2 powi e"
      by (rule power_int_add) simp
    then have "\<bar>x\<bar> < 2 powi 53 * 2 powi e" using assms(2) by (simp add: add.commute)
    then have "\<bar>x\<bar> / 2 powi e < 2 powi 53" using pe by (simp add: divide_less_eq)
    then show ?thesis using pe by (simp add: abs_divide del: power_int_numeral)
  qed
  then have "\<bar>(of_int n :: rat)\<bar> < 2 powi 53 + 1 / 2" using assms(5) by linarith
  then have "\<bar>(of_int n :: rat)\<bar> < of_int (2 ^ 53 + 1)" by simp
  then have "\<bar>n\<bar> < 2 ^ 53 + 1" by (metis of_int_abs of_int_less_iff)
  then have nb: "\<bar>(of_int n :: rat)\<bar> \<le> 2 powi 53"
    by (metis (no_types, opaque_lifting) of_int_abs of_int_le_iff of_int_numeral of_int_power power_int_numeral zle_add1_eq_le zless_add1_eq le_less)
  have "\<bar>of_int n * 2 powi e\<bar> \<le> 2 powi 53 * (2::rat) powi e"
    using nb pe by (simp add: abs_mult mult_right_mono del: power_int_numeral)
  also have "\<dots> = 2 powi (53 + e)"
    by (rule power_int_add[symmetric]) simp
  also have "\<dots> < 2 powi 1024"
  proof -
    have "53 + e < 1024" using assms(4) by simp
    then show ?thesis by (simp only: pow2_less_iff)
  qed
  finally have "\<bar>of_int n * 2 powi e\<bar> < overflow_threshold"
    by (simp only: overflow_threshold_def)
  then show ?thesis
    unfolding fl_alt rx by simp
qed

subsection \<open>Values that rounding leaves alone, and values it moves\<close>

lemma double_mantissa:
  assumes "fl x = Fin x"
  obtains n :: int where "x = of_int n * ulp x" "\<bar>n\<bar> < 2 ^ 53"
proof -
  define n where "n = rne (x / ulp x)"
  have x: "x = of_int n * ulp x"
    using assms by (cases x rule: fl_cases) (auto simp: round_to_ulp_def n_def)
  have u: "0 < ulp x" by simp
  have "(2::rat) powi (53 + (expo x - 52)) = 2 powi 53 * 2 powi (expo x - 52)"
    by (rule power_int_add) simp
  moreover have "53 + (expo x - 52) = expo x + 1" by simp
  ultimately have "(2::rat) powi (expo x + 1) = 2 powi 53 * ulp x"
    by (simp only: ulp_def)
  with expo_upper[of x] have "\<bar>x\<bar> < 2 powi 53 * ulp x" by simp
  then have "\<bar>of_int n * ulp x\<bar> < 2 powi 53 * ulp x" using x by simp
  then have "\<bar>of_int n\<bar> * ulp x < 2 powi 53 * ulp x"
    using u by (simp add: abs_mult del: power_int_numeral)
  then have "(\<bar>of_int n\<bar> :: rat) < 2 powi 53"
    using u by (simp only: mult_less_cancel_right_pos)
  then have "(of_int \<bar>n\<bar> :: rat) < of_int (2 ^ 53)" by simp
  then have "\<bar>n\<bar> < 2 ^ 53" by (simp only: of_int_less_iff)
  with x show thesis by (rule that)
qed

lemma fl_double:
  assumes "fl x = Fin x" "\<bar>x\<bar> < 2 powi 1023"
  shows "fl (2 * x) = Fin (2 * x)"
proof -
  obtain n :: int where x: "x = of_int n * ulp x" and n: "\<bar>n\<bar> < 2 ^ 53"
    using assms(1) by (rule double_mantissa)
  have e: "expo x \<le> 1022"
  proof (rule ccontr)
    assume "\<not> expo x \<le> 1022"
    then have g: "1023 \<le> expo x" by simp
    then have "- 1022 < expo x" by simp
    then have "2 powi (expo x) \<le> \<bar>x\<bar>" by (rule expo_lower)
    with assms(2) have "(2::rat) powi (expo x) < 2 powi 1023" by linarith
    then have "expo x < 1023" by (simp only: pow2_less_iff)
    with g show False by simp
  qed
  have "(2::rat) powi (1 + (expo x - 52)) = 2 powi 1 * 2 powi (expo x - 52)"
    by (rule power_int_add) simp
  moreover have "1 + (expo x - 52) = expo x - 51" by simp
  ultimately have "(2::rat) powi (expo x - 51) = 2 * ulp x"
    by (simp add: ulp_def)
  then have "2 * x = of_int n * 2 powi (expo x - 51)"
    using x by simp
  moreover have "fl (of_int n * 2 powi (expo x - 51)) = Fin (of_int n * 2 powi (expo x - 51))"
    using n e expo_ge[of x] by (intro fl_exact) auto
  ultimately show ?thesis by simp
qed

lemma midpoint_same:
  assumes "in_range (Fin x)"
  shows "midpoint (Fin x) (Fin x) = Fin x"
proof -
  from assms have d: "fl x = Fin x" and b: "\<bar>x\<bar> < 2 powi 1023"
    by (simp_all add: in_range_def del: power_int_numeral)
  have "fl (x + x) = Fin (2 * x)" using fl_double[OF d b] by simp
  then show ?thesis by (simp add: midpoint_def d)
qed

lemma fl_of_int: "\<bar>n\<bar> < 2 ^ 53 \<Longrightarrow> fl (of_int n) = Fin (of_int n)"
  using fl_exact[of n 0] by simp

lemma fl_numeral [simp]: "numeral k < (2::int) ^ 53 \<Longrightarrow> fl (numeral k) = Fin (numeral k)"
  using fl_of_int[of "numeral k"] by simp

lemma fl_one [simp]: "fl 1 = Fin 1"
  using fl_of_int[of 1] by simp

lemma fl_dyadic:
  assumes "\<bar>n\<bar> < 2 ^ 53" "j \<le> 1074"
  shows "fl (of_int n / 2 ^ j) = Fin (of_int n / 2 ^ j)"
proof -
  have "(2::rat) powi (- int j) = 1 / 2 ^ j"
    by (simp add: power_int_minus divide_inverse)
  then show ?thesis
    using fl_exact[of n "- int j"] assms by simp
qed

lemma small_doubles:
  "fl 2 = Fin 2" "fl 3 = Fin 3" "fl 4 = Fin 4" "fl 5 = Fin 5"
  "fl 10 = Fin 10" "fl 15 = Fin 15" "fl 20 = Fin 20" "fl 30 = Fin 30"
  "fl (3 / 2) = Fin (3 / 2)" "fl (5 / 2) = Fin (5 / 2)" "fl (11 / 2) = Fin (11 / 2)"
  using fl_dyadic[of 3 1] fl_dyadic[of 5 1] fl_dyadic[of 11 1]
  by simp_all

lemma small_midpoints:
  "midpoint (Fin 10) (Fin 20) = Fin 15"
  "midpoint (Fin 10) (Fin 0) = Fin 5"
  "midpoint (Fin 20) (Fin 0) = Fin 10"
  "midpoint (Fin 10) (Fin 1) = Fin (11 / 2)"
  "midpoint (Fin 2) (Fin 3) = Fin (5 / 2)"
  "midpoint (Fin 1) (Fin 2) = Fin (3 / 2)"
  "midpoint (Fin 0) (Fin 0) = Fin 0"
  by (simp_all add: midpoint_def small_doubles)

lemma rne_tie: "even n \<Longrightarrow> rne (of_int n + 1 / 2) = n"
proof -
  have "\<lfloor>(of_int n :: rat) + 1 / 2\<rfloor> = n" by (intro floor_unique) auto
  then show "even n \<Longrightarrow> rne (of_int n + 1 / 2) = n"
    by (simp add: rne_def Let_def)
qed

lemma fl_tie:
  assumes "2 powi (e + 52) \<le> \<bar>x\<bar>" "\<bar>x\<bar> < 2 powi (e + 53)" "- 1074 \<le> e" "e \<le> 970"
    and "x / 2 powi e = of_int n + 1 / 2" "even n" "\<bar>n\<bar> < 2 ^ 53"
  shows "fl x = Fin (of_int n * 2 powi e)"
proof -
  have "0 < \<bar>x\<bar>" using assms(1) pow2_pos[of "e + 52"] by linarith
  then have x0: "x \<noteq> 0" by simp
  have "ilog2 \<bar>x\<bar> = e + 52"
    using assms(1,2) by (intro ilog2_unique) (simp_all add: add.assoc)
  then have "expo x = e + 52" using x0 assms(3) by (simp add: expo_def)
  then have u: "ulp x = 2 powi e" by (simp add: ulp_def)
  have "rne (x / 2 powi e) = n" using assms(5,6) by (simp add: rne_tie)
  then have rx: "round_to_ulp x = of_int n * 2 powi e"
    by (simp add: round_to_ulp_def u)
  have "\<bar>of_int n * 2 powi e\<bar> < (2::rat) powi (e + 53)"
    using assms(7) by (rule abs_pow2_bound)
  also have "\<dots> < 2 powi 1024"
  proof -
    have "e + 53 < 1024" using assms(4) by simp
    then show ?thesis by (simp only: pow2_less_iff)
  qed
  finally have "\<bar>of_int n * 2 powi e\<bar> < overflow_threshold"
    by (simp only: overflow_threshold_def)
  then show ?thesis
    unfolding fl_alt rx by simp
qed

section \<open>The sort by \<open>originalMin\<close>\<close>

lemma num_key_inj: "num_key a = num_key b \<longleftrightarrow> a = b"
  by (cases a; cases b) auto

lemma js_sub_key:
  assumes "orderable a" "orderable b"
  shows "is_positive (js_sub a b) \<longleftrightarrow> num_key b < num_key a"
    and "is_negative (js_sub a b) \<longleftrightarrow> num_key a < num_key b"
proof -
  have fin: "is_positive (js_sub (Fin x) (Fin y)) \<longleftrightarrow> y < x"
       "is_negative (js_sub (Fin x) (Fin y)) \<longleftrightarrow> x < y"
    if "fl x = Fin x" "fl y = Fin y" for x y
    using fl_diff_sign[OF that] by (simp_all add: js_sub_def)
  show "is_positive (js_sub a b) \<longleftrightarrow> num_key b < num_key a"
    using assms fin(1)
    by (cases a; cases b) (auto simp: orderable_def js_sub_def)
  show "is_negative (js_sub a b) \<longleftrightarrow> num_key a < num_key b"
    using assms fin(2)
    by (cases a; cases b) (auto simp: orderable_def js_sub_def)
qed

lemma insert_sorted_insort:
  assumes "orderable (originalMin x)" "\<forall>y\<in>set ys. orderable (originalMin y)"
  shows "insert_sorted by_originalMin x ys = insort_key min_key x ys"
  using assms
proof (induction ys)
  case Nil
  then show ?case by simp
next
  case (Cons y ys)
  then have "is_positive (by_originalMin x y) \<longleftrightarrow> \<not> min_key x \<le> min_key y"
    using js_sub_key(1)[of "originalMin x" "originalMin y"]
    by (simp add: by_originalMin_def not_le)
  with Cons show ?case by simp
qed

lemma stable_sort_sort_key:
  assumes "\<forall>e\<in>set es. orderable (originalMin e)"
  shows "stable_sort by_originalMin es = sort_key min_key es"
  using assms
proof (induction es)
  case Nil
  then show ?case by (simp add: stable_sort_def)
next
  case (Cons e es)
  then have ih: "stable_sort by_originalMin es = sort_key min_key es" by simp
  have "\<forall>y\<in>set (sort_key min_key es). orderable (originalMin y)"
    using Cons.prems by simp
  with Cons.prems have "insert_sorted by_originalMin e (sort_key min_key es)
      = insort_key min_key e (sort_key min_key es)"
    by (intro insert_sorted_insort) auto
  with ih show ?case
    by (simp add: stable_sort_def)
qed

lemma consistent_by_originalMin:
  assumes "\<forall>e\<in>set es. orderable (originalMin e)"
  shows "consistent_comparator by_originalMin es"
proof -
  have pos: "is_positive (by_originalMin a b) \<longleftrightarrow> min_key b < min_key a"
    and neg: "is_negative (by_originalMin a b) \<longleftrightarrow> min_key a < min_key b"
    if "a \<in> set es" "b \<in> set es" for a b
    using js_sub_key[of "originalMin a" "originalMin b"] that assms
    by (simp_all add: by_originalMin_def)
  show ?thesis
    unfolding consistent_comparator_def list_all_iff cf_eq_def
    by (auto simp: pos neg)
qed

lemma reconcile_orderable:
  assumes "\<forall>e\<in>set es. orderable (originalMin e)"
  shows "reconcile es = Inr (segments (sort_key min_key es))"
  using assms
  by (simp add: reconcile_eq consistent_by_originalMin stable_sort_sort_key)

lemma sort_key_permutation:
  assumes "mset es' = mset es" "distinct (map originalMin es)"
  shows "sort_key min_key es' = sort_key min_key es"
proof (rule sort_key_inj_key_eq)
  show "mset es' = mset (sort_key min_key es)" using assms(1) by simp
  have "inj_on originalMin (set es)" using assms(2) by (simp add: distinct_map)
  moreover have "set es' = set es" using assms(1) by (rule mset_eq_setD)
  ultimately show "inj_on min_key (set es')"
    by (auto simp: inj_on_def num_key_inj)
  show "sorted (map min_key (sort_key min_key es))" by simp
qed

lemma mset_Object_entries [simp]: "mset (Object_entries m) = mset m"
  by (simp add: Object_entries_def)

lemma set_Object_entries [simp]: "set (Object_entries m) = set m"
  using mset_Object_entries[of m] by (metis set_mset_mset)

lemma mset_canvas_entries:
  "mset m' = mset m \<Longrightarrow> mset (canvas_entries m') = mset (canvas_entries m)"
  by (simp add: canvas_entries_def)

lemma mset_map_filter: "mset (List.map_filter f xs) = image_mset (the \<circ> f) (filter_mset (\<lambda>x. f x \<noteq> None) (mset xs))"
  by (simp add: List.map_filter_def)

lemma mset_note_entries:
  "mset a' = mset a \<Longrightarrow> mset (note_entries a') = mset (note_entries a)"
  by (simp add: note_entries_def mset_map_filter)

section \<open>Properties of the interval reconciler\<close>

lemma length_segments_from [simp]: "length (segments_from s es) = length es"
  by (induction s es rule: segments_from.induct) auto

lemma segments_from_start: "es \<noteq> [] \<Longrightarrow> seg_start (segments_from s es ! 0) = s"
  by (induction s es rule: segments_from.induct) auto

lemma segments_from_contiguous:
  "Suc i < length es \<Longrightarrow>
     seg_end (segments_from s es ! i) = seg_start (segments_from s es ! Suc i)"
proof (induction s es arbitrary: i rule: segments_from.induct)
  case (3 s e n es)
  show ?case
  proof (cases i)
    case 0
    then show ?thesis
      using segments_from_start[of "n # es" "midpoint (originalMax e) (originalMin n)"] by simp
  next
    case (Suc j)
    with 3 show ?thesis by simp
  qed
qed auto

lemma segments_from_ids [simp]: "map seg_id (segments_from s es) = map entry_id es"
  by (induction s es rule: segments_from.induct) auto

lemma segments_from_last_end:
  "es \<noteq> [] \<Longrightarrow> seg_end (last (segments_from s es)) = originalMax (last es)"
proof (induction s es rule: segments_from.induct)
  case (3 s e n es)
  have "segments_from (midpoint (originalMax e) (originalMin n)) (n # es) \<noteq> []"
    by (metis length_segments_from length_0_conv list.distinct(1))
  with 3 show ?case by simp
qed auto

lemma length_segments [simp]: "length (segments es) = length es"
  by (cases es) (simp_all add: segments_def)

lemma segments_ids [simp]: "map seg_id (segments es) = map entry_id es"
  by (cases es) (simp_all add: segments_def)

lemma segments_start: "es \<noteq> [] \<Longrightarrow> seg_start (segments es ! 0) = originalMin (es ! 0)"
  using segments_from_start[of es "originalMin (es ! 0)"]
  by (cases es) (simp_all add: segments_def)

lemma segments_contiguous:
  "Suc i < length es \<Longrightarrow> seg_end (segments es ! i) = seg_start (segments es ! Suc i)"
  using segments_from_contiguous[of i es]
  by (cases es) (simp_all add: segments_def)

lemma segments_last_end: "es \<noteq> [] \<Longrightarrow> seg_end (last (segments es)) = originalMax (last es)"
  using segments_from_last_end[of es]
  by (cases es) (simp_all add: segments_def)

lemma length_insert_sorted [simp]: "length (insert_sorted cmp x ys) = Suc (length ys)"
  by (induction ys) auto

lemma length_stable_sort [simp]: "length (stable_sort cmp xs) = length xs"
  by (induction xs) (simp_all add: stable_sort_def)

lemma length_Object_entries [simp]: "length (Object_entries m) = length m"
  using mset_Object_entries[of m] by (metis size_mset)

lemma length_canvas_entries [simp]: "length (canvas_entries m) = length m"
  by (simp add: canvas_entries_def)

lemma reconcile_Inr:
  "reconcile es = Inr segs \<Longrightarrow> segs = segments (stable_sort by_originalMin es)"
  by (simp add: reconcile_eq split: if_splits)

lemma canvas_entries_orderable:
  assumes "\<forall>r\<in>snd ` set m. orderable (mm_min r)"
  shows "\<forall>e\<in>set (canvas_entries m). orderable (originalMin e)"
  using assms by (auto simp: canvas_entries_def)

lemma after_sort_segments: "after_sort es = Inr (segments es)"
  by (simp add: after_sort_def reconcile_loop_from_start segments_def)

lemma reconcile_after_sort:
  "reconcile entries =
     (case Array_sort by_originalMin entries of Inl e \<Rightarrow> Inl e | Inr s \<Rightarrow> after_sort s)"
  by (simp add: reconcile_def after_sort_def split: sum.splits)

lemma mset_insert_sorted [simp]: "mset (insert_sorted cmp x ys) = add_mset x (mset ys)"
  by (induction ys) auto

lemma mset_stable_sort [simp]: "mset (stable_sort cmp xs) = mset xs"
  by (induction xs) (simp_all add: stable_sort_def)

lemma sorted_first_least:
  assumes "sorted (map f xs)" "x \<in> set xs"
  shows "f (xs ! 0) \<le> f x"
  using assms by (cases xs) auto

text \<open>
  C2, as the code has it.  For a non-empty page accumulator and every array the sort may
  leave, the rest of \<open>orderCanvasMapping\<close> returns one segment for each page; each
  segment starts with the very value its predecessor ends with, and the two compare equal
  with \<open>==\<close> exactly when that boundary is not \<open>NaN\<close>; the first segment starts at the
  \<open>observedMin\<close> of the first triple after sorting, which is one of the \<open>observedMin\<close>
  values of the accumulator.  When the comparator is consistent these are the segments
  \<open>orderCanvasMapping\<close> returns, and when no \<open>observedMin\<close> is \<open>NaN\<close> the first start is
  the least \<open>observedMin\<close>.
\<close>

theorem orderCanvasMapping_contiguous:
  assumes "canvasMinMax \<noteq> []"
    and "possible_sort by_originalMin (canvas_entries canvasMinMax) sorted_entries"
  shows "\<exists>segs. after_sort sorted_entries = Inr segs
    \<and> length segs = length canvasMinMax
    \<and> (\<forall>i. Suc i < length segs \<longrightarrow>
          seg_start (segs ! Suc i) = seg_end (segs ! i)
          \<and> (js_equals (seg_end (segs ! i)) (seg_start (segs ! Suc i))
               \<longleftrightarrow> seg_end (segs ! i) \<noteq> NaN))
    \<and> seg_start (segs ! 0) = originalMin (sorted_entries ! 0)
    \<and> seg_start (segs ! 0) \<in> (\<lambda>kv. mm_min (snd kv)) ` set canvasMinMax
    \<and> (consistent_comparator by_originalMin (canvas_entries canvasMinMax)
          \<longrightarrow> orderCanvasMapping canvasMinMax = Inr segs)
    \<and> ((\<forall>kv\<in>set canvasMinMax. orderable (mm_min (snd kv)))
          \<longrightarrow> orderCanvasMapping canvasMinMax = Inr segs
            \<and> (\<forall>kv\<in>set canvasMinMax. num_le (seg_start (segs ! 0)) (mm_min (snd kv))))"
proof -
  let ?es = "canvas_entries canvasMinMax"
  let ?segs = "segments sorted_entries"
  have ms: "mset sorted_entries = mset ?es"
    using assms(2) by (simp add: possible_sort_def)
  then have len: "length sorted_entries = length canvasMinMax"
    by (metis size_mset length_canvas_entries)
  with assms(1) have ne: "sorted_entries \<noteq> []" by auto
  have st: "set sorted_entries = set ?es" using ms by (rule mset_eq_setD)
  have mins: "originalMin ` set ?es = (\<lambda>kv. mm_min (snd kv)) ` set canvasMinMax"
    by (force simp: canvas_entries_def image_iff case_prod_unfold)
  have 1: "after_sort sorted_entries = Inr ?segs" by (rule after_sort_segments)
  have 2: "length ?segs = length canvasMinMax" using len by simp
  have 3: "\<forall>i. Suc i < length ?segs \<longrightarrow>
          seg_start (?segs ! Suc i) = seg_end (?segs ! i)
          \<and> (js_equals (seg_end (?segs ! i)) (seg_start (?segs ! Suc i))
               \<longleftrightarrow> seg_end (?segs ! i) \<noteq> NaN)"
    using segments_contiguous[of _ sorted_entries] by (simp add: js_equals_def)
  have 4: "seg_start (?segs ! 0) = originalMin (sorted_entries ! 0)"
    using ne by (rule segments_start)
  have "sorted_entries ! 0 \<in> set ?es" using ne st by (metis nth_mem length_greater_0_conv)
  then have 5: "seg_start (?segs ! 0) \<in> (\<lambda>kv. mm_min (snd kv)) ` set canvasMinMax"
    using 4 mins by (metis imageI)
  have c: "orderCanvasMapping canvasMinMax = Inr ?segs"
    if "consistent_comparator by_originalMin ?es"
    using that assms(2) by (simp add: possible_sort_def orderCanvasMapping_def reconcile_eq)
  have 7: "orderCanvasMapping canvasMinMax = Inr ?segs
            \<and> (\<forall>kv\<in>set canvasMinMax. num_le (seg_start (?segs ! 0)) (mm_min (snd kv)))"
    if o: "\<forall>kv\<in>set canvasMinMax. orderable (mm_min (snd kv))"
  proof
    have oe: "\<forall>e\<in>set ?es. orderable (originalMin e)"
      using o by (intro canvas_entries_orderable) auto
    have cc: "consistent_comparator by_originalMin ?es"
      using oe by (rule consistent_by_originalMin)
    show "orderCanvasMapping canvasMinMax = Inr ?segs" using cc by (rule c)
    have se: "sorted_entries = sort_key min_key ?es"
      using cc assms(2) stable_sort_sort_key[OF oe] by (simp add: possible_sort_def)
    then have srt: "sorted (map min_key sorted_entries)" by simp
    show "\<forall>kv\<in>set canvasMinMax. num_le (seg_start (?segs ! 0)) (mm_min (snd kv))"
    proof
      fix kv assume kv: "kv \<in> set canvasMinMax"
      then have "mm_min (snd kv) \<in> originalMin ` set sorted_entries"
        using mins st by blast
      then obtain e where e: "e \<in> set sorted_entries" "originalMin e = mm_min (snd kv)" by auto
      have le: "min_key (sorted_entries ! 0) \<le> min_key e"
        using sorted_first_least[OF srt e(1)] .
      have n1: "originalMin e \<noteq> NaN" using e(2) o kv by (simp add: orderable_def)
      have "sorted_entries ! 0 \<in> set ?es" using ne st by (metis nth_mem length_greater_0_conv)
      then have n0: "originalMin (sorted_entries ! 0) \<noteq> NaN"
        using oe by (auto simp: orderable_def)
      show "num_le (seg_start (?segs ! 0)) (mm_min (snd kv))"
        using le n0 n1 4 e(2) by (simp add: num_le_key)
    qed
  qed
  from 1 2 3 4 5 c 7 show ?thesis by blast
qed


lemma Object_entries_plain:
  "\<forall>kv\<in>set m. \<not> is_array_index (fst kv) \<Longrightarrow> Object_entries m = m"
  by (simp add: Object_entries_def filter_empty_conv filter_id_conv)

lemma reconcile_sorted:
  assumes "\<forall>e\<in>set es. orderable (originalMin e)" "sorted (map min_key es)"
  shows "reconcile es = Inr (segments es)"
  using assms by (simp add: reconcile_orderable sort_key_id_if_sorted)

lemma stable_sort_sorted:
  assumes "\<forall>e\<in>set es. orderable (originalMin e)" "sorted (map min_key es)"
  shows "stable_sort by_originalMin es = es"
  using assms by (simp add: stable_sort_sort_key sort_key_id_if_sorted)

lemma distinct_canvas_mins:
  assumes "distinct (map (\<lambda>kv. mm_min (snd kv)) m)"
  shows "distinct (map originalMin (canvas_entries m))"
proof -
  have "map originalMin (canvas_entries m) = map (\<lambda>kv. mm_min (snd kv)) (Object_entries m)"
    by (simp add: canvas_entries_def case_prod_unfold)
  moreover have "mset (map (\<lambda>kv. mm_min (snd kv)) (Object_entries m)) = mset (map (\<lambda>kv. mm_min (snd kv)) m)"
    by simp
  ultimately show ?thesis
    using assms by (metis mset_eq_imp_distinct_iff)
qed

lemma reconcile_permutation:
  assumes "mset es' = mset es" "\<forall>e\<in>set es. orderable (originalMin e)"
    "distinct (map originalMin es)"
  shows "reconcile es' = reconcile es" "\<exists>segs. reconcile es = Inr segs"
proof -
  have "set es' = set es" using assms(1) by (rule mset_eq_setD)
  then have o': "\<forall>e\<in>set es'. orderable (originalMin e)" using assms(2) by simp
  show "reconcile es' = reconcile es"
    using sort_key_permutation[OF assms(1) assms(3)]
    by (simp add: reconcile_orderable[OF o'] reconcile_orderable[OF assms(2)])
  show "\<exists>segs. reconcile es = Inr segs"
    by (simp add: reconcile_orderable[OF assms(2)])
qed

text \<open>
  C4, as the code has it.  When the \<open>observedMin\<close> values are numbers other than \<open>NaN\<close>
  and pairwise distinct, \<open>orderCanvasMapping\<close> and \<open>orderAnnotationMapping\<close> return the
  same segments, in the same order, for every re-ordering of the entries of the mapping.
  Equal minima are ordered by the stable sort as the mapping lists them, and the
  midpoints depend on that order.
\<close>

theorem reconciler_reordering:
  "(mset m' = mset m \<and> (\<forall>r\<in>snd ` set m. orderable (mm_min r))
      \<and> distinct (map (\<lambda>kv. mm_min (snd kv)) m)
     \<longrightarrow> orderCanvasMapping m' = orderCanvasMapping m
         \<and> (\<exists>segs. orderCanvasMapping m = Inr segs))
   \<and> (mset a' = mset a \<and> (\<forall>e\<in>set (note_entries a). orderable (originalMin e))
      \<and> distinct (map originalMin (note_entries a))
     \<longrightarrow> orderAnnotationMapping a' = orderAnnotationMapping a
         \<and> (\<exists>segs. orderAnnotationMapping a = Inr segs))"
proof (intro conjI impI)
  assume h: "mset m' = mset m \<and> (\<forall>r\<in>snd ` set m. orderable (mm_min r))
      \<and> distinct (map (\<lambda>kv. mm_min (snd kv)) m)"
  note r = reconcile_permutation[OF mset_canvas_entries[of m' m] canvas_entries_orderable[of m]
      distinct_canvas_mins[of m]]
  show "orderCanvasMapping m' = orderCanvasMapping m"
    using h r(1) by (simp add: orderCanvasMapping_def)
  show "\<exists>segs. orderCanvasMapping m = Inr segs"
    using h r(2) by (simp add: orderCanvasMapping_def)
next
  assume h: "mset a' = mset a \<and> (\<forall>e\<in>set (note_entries a). orderable (originalMin e))
      \<and> distinct (map originalMin (note_entries a))"
  note r = reconcile_permutation[OF mset_note_entries[of a' a], of ]
  show "orderAnnotationMapping a' = orderAnnotationMapping a"
    using h r(1) by (simp add: orderAnnotationMapping_def)
  show "\<exists>segs. orderAnnotationMapping a = Inr segs"
    using h r(2) by (simp add: orderAnnotationMapping_def)
qed

lemma plain_keys:
  "\<not> is_array_index ''A''" "\<not> is_array_index ''B''" "\<not> is_array_index ''C''"
  "\<not> is_array_index ''n1''" "\<not> is_array_index ''n2''" "\<not> is_array_index ''img''"
  by (simp_all add: is_array_index_def is_digit_def)

lemma orderCanvasMapping_sorted:
  assumes "\<forall>kv\<in>set m. \<not> is_array_index (fst kv)"
    "\<forall>kv\<in>set m. orderable (mm_min (snd kv))"
    "sorted (map (\<lambda>kv. num_key (mm_min (snd kv))) m)"
  shows "orderCanvasMapping m
     = Inr (segments (map (\<lambda>(id, range).
          \<lparr>entry_id = id, originalMin = mm_min range, originalMax = mm_max range\<rparr>) m))"
    and "stable_sort by_originalMin (canvas_entries m)
     = map (\<lambda>(id, range).
          \<lparr>entry_id = id, originalMin = mm_min range, originalMax = mm_max range\<rparr>) m"
proof -
  let ?es = "map (\<lambda>(id, range).
          \<lparr>entry_id = id, originalMin = mm_min range, originalMax = mm_max range\<rparr>) m"
  have ce: "canvas_entries m = ?es"
    using assms(1) by (simp add: canvas_entries_def Object_entries_plain)
  have o: "\<forall>e\<in>set ?es. orderable (originalMin e)"
    using assms(2) by auto
  have "map min_key ?es = map (\<lambda>kv. num_key (mm_min (snd kv))) m"
    by (simp add: case_prod_unfold)
  then have s: "sorted (map min_key ?es)" using assms(3) by (simp only:)
  show "orderCanvasMapping m = Inr (segments ?es)"
    unfolding orderCanvasMapping_def ce by (rule reconcile_sorted[OF o s])
  show "stable_sort by_originalMin (canvas_entries m) = ?es"
    unfolding ce by (rule stable_sort_sorted[OF o s])
qed

lemma nan_midpoints [simp]:
  "midpoint NaN b = NaN" "midpoint a NaN = NaN"
  by (cases a; simp add: midpoint_def)+

lemma midpoint_5_1: "midpoint (Fin 5) (Fin 1) = Fin 3"
  by (simp add: midpoint_def)

text \<open>
  Two instances of C2: two pages in order, and three pages of which one has the
  \<open>observedMin\<close> \<open>NaN\<close>, so that the comparator is not consistent, with the array left as
  it was.
\<close>

theorem orderCanvasMapping_contiguous_witness:
  "[(''A'', \<lparr>mm_min = Fin 0, mm_max = Fin 10\<rparr>), (''B'', \<lparr>mm_min = Fin 20, mm_max = Fin 30\<rparr>)] \<noteq> []
   \<and> possible_sort by_originalMin
        (canvas_entries
           [(''A'', \<lparr>mm_min = Fin 0, mm_max = Fin 10\<rparr>), (''B'', \<lparr>mm_min = Fin 20, mm_max = Fin 30\<rparr>)])
        [\<lparr>entry_id = ''A'', originalMin = Fin 0, originalMax = Fin 10\<rparr>,
         \<lparr>entry_id = ''B'', originalMin = Fin 20, originalMax = Fin 30\<rparr>]
   \<and> orderCanvasMapping
        [(''A'', \<lparr>mm_min = Fin 0, mm_max = Fin 10\<rparr>), (''B'', \<lparr>mm_min = Fin 20, mm_max = Fin 30\<rparr>)]
     = Inr [\<lparr>seg_id = ''A'', seg_start = Fin 0, seg_end = Fin 15\<rparr>,
            \<lparr>seg_id = ''B'', seg_start = Fin 15, seg_end = Fin 30\<rparr>]
   \<and> js_equals (Fin 15) (Fin 15)
   \<and> num_le (Fin 0) (Fin 0) \<and> num_le (Fin 0) (Fin 20)
   \<and> [(''A'', \<lparr>mm_min = Fin 2, mm_max = Fin 3\<rparr>), (''B'', \<lparr>mm_min = NaN, mm_max = Fin 5\<rparr>),
       (''C'', \<lparr>mm_min = Fin 1, mm_max = Fin 4\<rparr>)] \<noteq> []
   \<and> \<not> consistent_comparator by_originalMin
        (canvas_entries
           [(''A'', \<lparr>mm_min = Fin 2, mm_max = Fin 3\<rparr>), (''B'', \<lparr>mm_min = NaN, mm_max = Fin 5\<rparr>),
            (''C'', \<lparr>mm_min = Fin 1, mm_max = Fin 4\<rparr>)])
   \<and> possible_sort by_originalMin
        (canvas_entries
           [(''A'', \<lparr>mm_min = Fin 2, mm_max = Fin 3\<rparr>), (''B'', \<lparr>mm_min = NaN, mm_max = Fin 5\<rparr>),
            (''C'', \<lparr>mm_min = Fin 1, mm_max = Fin 4\<rparr>)])
        [\<lparr>entry_id = ''A'', originalMin = Fin 2, originalMax = Fin 3\<rparr>,
         \<lparr>entry_id = ''B'', originalMin = NaN, originalMax = Fin 5\<rparr>,
         \<lparr>entry_id = ''C'', originalMin = Fin 1, originalMax = Fin 4\<rparr>]
   \<and> after_sort
        [\<lparr>entry_id = ''A'', originalMin = Fin 2, originalMax = Fin 3\<rparr>,
         \<lparr>entry_id = ''B'', originalMin = NaN, originalMax = Fin 5\<rparr>,
         \<lparr>entry_id = ''C'', originalMin = Fin 1, originalMax = Fin 4\<rparr>]
     = Inr [\<lparr>seg_id = ''A'', seg_start = Fin 2, seg_end = NaN\<rparr>,
            \<lparr>seg_id = ''B'', seg_start = NaN, seg_end = Fin 3\<rparr>,
            \<lparr>seg_id = ''C'', seg_start = Fin 3, seg_end = Fin 4\<rparr>]
   \<and> \<not> js_equals NaN NaN \<and> js_equals (Fin 3) (Fin 3)"
proof -
  let ?m = "[(''A'', \<lparr>mm_min = Fin 0, mm_max = Fin 10\<rparr>), (''B'', \<lparr>mm_min = Fin 20, mm_max = Fin 30\<rparr>)]"
  let ?es = "[\<lparr>entry_id = ''A'', originalMin = Fin 0, originalMax = Fin 10\<rparr>,
         \<lparr>entry_id = ''B'', originalMin = Fin 20, originalMax = Fin 30\<rparr>]"
  let ?segs = "[\<lparr>seg_id = ''A'', seg_start = Fin 0, seg_end = Fin 15\<rparr>,
            \<lparr>seg_id = ''B'', seg_start = Fin 15, seg_end = Fin 30\<rparr>]"
  let ?n = "[(''A'', \<lparr>mm_min = Fin 2, mm_max = Fin 3\<rparr>), (''B'', \<lparr>mm_min = NaN, mm_max = Fin 5\<rparr>),
       (''C'', \<lparr>mm_min = Fin 1, mm_max = Fin 4\<rparr>)]"
  let ?fs = "[\<lparr>entry_id = ''A'', originalMin = Fin 2, originalMax = Fin 3\<rparr>,
         \<lparr>entry_id = ''B'', originalMin = NaN, originalMax = Fin 5\<rparr>,
         \<lparr>entry_id = ''C'', originalMin = Fin 1, originalMax = Fin 4\<rparr>]"
  let ?tegs = "[\<lparr>seg_id = ''A'', seg_start = Fin 2, seg_end = NaN\<rparr>,
            \<lparr>seg_id = ''B'', seg_start = NaN, seg_end = Fin 3\<rparr>,
            \<lparr>seg_id = ''C'', seg_start = Fin 3, seg_end = Fin 4\<rparr>]"
  have ne: "?m \<noteq> []" by simp
  have om: "\<forall>kv\<in>set ?m. orderable (mm_min (snd kv))"
    by (simp add: orderable_def small_doubles)
  have ss: "stable_sort by_originalMin (canvas_entries ?m) = ?es"
    by (subst orderCanvasMapping_sorted(2)) (simp_all add: plain_keys orderable_def small_doubles)
  have ps: "possible_sort by_originalMin (canvas_entries ?m) ?es"
    unfolding possible_sort_def ss[symmetric] by simp
  have as: "after_sort ?es = Inr ?segs"
    by (simp add: after_sort_segments segments_def small_midpoints)
  from orderCanvasMapping_contiguous[OF ne ps] as om
  have 1: "orderCanvasMapping ?m = Inr ?segs" by auto
  have nn: "?n \<noteq> []" by simp
  have cn: "canvas_entries ?n = ?fs"
    by (simp add: canvas_entries_def Object_entries_plain plain_keys)
  have inc: "\<not> consistent_comparator by_originalMin (canvas_entries ?n)"
    unfolding cn by (simp add: consistent_comparator_def cf_eq_def by_originalMin_def js_sub_def)
  have pn: "possible_sort by_originalMin (canvas_entries ?n) ?fs"
    using inc unfolding possible_sort_def cn by simp
  have an: "after_sort ?fs = Inr ?tegs"
    by (simp add: after_sort_segments segments_def midpoint_5_1)
  from orderCanvasMapping_contiguous[OF nn pn] an
  have 2: "\<not> js_equals (seg_end (?tegs ! 0)) (seg_start (?tegs ! Suc 0))
      \<and> js_equals (seg_end (?tegs ! Suc 0)) (seg_start (?tegs ! Suc (Suc 0)))" 
    by auto
  have 3: "num_le (Fin 0) (Fin 0) \<and> num_le (Fin 0) (Fin 20)" by simp
  from ne ps 1 nn inc pn an 2 3 show ?thesis by (simp add: js_equals_def)
qed

text \<open>
  A page whose \<open>observedMax\<close> is \<open>NaN\<close>, as a temporal fragment without end bound gives
  it: the boundary between the two segments is \<open>NaN\<close>, and \<open>end == start\<close> is false
  there.
\<close>

theorem orderCanvasMapping_contiguous_counterexample:
  "orderCanvasMapping
     [(''A'', \<lparr>mm_min = Fin 0, mm_max = NaN\<rparr>), (''B'', \<lparr>mm_min = Fin 1, mm_max = Fin 2\<rparr>)]
     = Inr [\<lparr>seg_id = ''A'', seg_start = Fin 0, seg_end = NaN\<rparr>,
            \<lparr>seg_id = ''B'', seg_start = NaN, seg_end = Fin 2\<rparr>]
   \<and> \<not> js_equals
         (seg_end ([\<lparr>seg_id = ''A'', seg_start = Fin 0, seg_end = NaN\<rparr>,
            \<lparr>seg_id = ''B'', seg_start = NaN, seg_end = Fin 2\<rparr>] ! 0))
         (seg_start ([\<lparr>seg_id = ''A'', seg_start = Fin 0, seg_end = NaN\<rparr>,
            \<lparr>seg_id = ''B'', seg_start = NaN, seg_end = Fin 2\<rparr>] ! Suc 0))"
proof -
  have "orderCanvasMapping
     [(''A'', \<lparr>mm_min = Fin 0, mm_max = NaN\<rparr>), (''B'', \<lparr>mm_min = Fin 1, mm_max = Fin 2\<rparr>)]
     = Inr [\<lparr>seg_id = ''A'', seg_start = Fin 0, seg_end = NaN\<rparr>,
            \<lparr>seg_id = ''B'', seg_start = NaN, seg_end = Fin 2\<rparr>]"
    by (subst orderCanvasMapping_sorted(1))
       (simp_all add: plain_keys orderable_def small_doubles segments_def)
  then show ?thesis by (simp add: js_equals_def)
qed

text \<open>Two pages and two notes, in both orders.\<close>

theorem reconciler_reordering_witness:
  "mset [(''B'', \<lparr>mm_min = Fin 20, mm_max = Fin 30\<rparr>), (''A'', \<lparr>mm_min = Fin 0, mm_max = Fin 10\<rparr>)]
     = mset [(''A'', \<lparr>mm_min = Fin 0, mm_max = Fin 10\<rparr>), (''B'', \<lparr>mm_min = Fin 20, mm_max = Fin 30\<rparr>)]
   \<and> orderCanvasMapping
        [(''B'', \<lparr>mm_min = Fin 20, mm_max = Fin 30\<rparr>), (''A'', \<lparr>mm_min = Fin 0, mm_max = Fin 10\<rparr>)]
     = orderCanvasMapping
        [(''A'', \<lparr>mm_min = Fin 0, mm_max = Fin 10\<rparr>), (''B'', \<lparr>mm_min = Fin 20, mm_max = Fin 30\<rparr>)]
   \<and> orderAnnotationMapping
        [(''n2'', empty_record\<lparr>audio := Some \<lparr>t_start = Fin 20, t_end = Fin 30\<rparr>,
                               svgSelector := Some (toSvg (Fin 1) (Fin 1) [])\<rparr>),
         (''n1'', empty_record\<lparr>audio := Some \<lparr>t_start = Fin 0, t_end = Fin 10\<rparr>,
                               svgSelector := Some (toSvg (Fin 1) (Fin 1) [])\<rparr>)]
     = orderAnnotationMapping
        [(''n1'', empty_record\<lparr>audio := Some \<lparr>t_start = Fin 0, t_end = Fin 10\<rparr>,
                               svgSelector := Some (toSvg (Fin 1) (Fin 1) [])\<rparr>),
         (''n2'', empty_record\<lparr>audio := Some \<lparr>t_start = Fin 20, t_end = Fin 30\<rparr>,
                               svgSelector := Some (toSvg (Fin 1) (Fin 1) [])\<rparr>)]"
proof -
  let ?m = "[(''A'', \<lparr>mm_min = Fin 0, mm_max = Fin 10\<rparr>), (''B'', \<lparr>mm_min = Fin 20, mm_max = Fin 30\<rparr>)]"
  let ?m' = "[(''B'', \<lparr>mm_min = Fin 20, mm_max = Fin 30\<rparr>), (''A'', \<lparr>mm_min = Fin 0, mm_max = Fin 10\<rparr>)]"
  let ?a = "[(''n1'', empty_record\<lparr>audio := Some \<lparr>t_start = Fin 0, t_end = Fin 10\<rparr>,
                               svgSelector := Some (toSvg (Fin 1) (Fin 1) [])\<rparr>),
         (''n2'', empty_record\<lparr>audio := Some \<lparr>t_start = Fin 20, t_end = Fin 30\<rparr>,
                               svgSelector := Some (toSvg (Fin 1) (Fin 1) [])\<rparr>)]"
  let ?a' = "[(''n2'', empty_record\<lparr>audio := Some \<lparr>t_start = Fin 20, t_end = Fin 30\<rparr>,
                               svgSelector := Some (toSvg (Fin 1) (Fin 1) [])\<rparr>),
         (''n1'', empty_record\<lparr>audio := Some \<lparr>t_start = Fin 0, t_end = Fin 10\<rparr>,
                               svgSelector := Some (toSvg (Fin 1) (Fin 1) [])\<rparr>)]"
  have pm: "mset ?m' = mset ?m" by (simp add: add_mset_commute)
  have pa: "mset ?a' = mset ?a" by (simp add: add_mset_commute)
  have om: "\<forall>r\<in>snd ` set ?m. orderable (mm_min r)"
    by (simp add: orderable_def small_doubles)
  have dm: "distinct (map (\<lambda>kv. mm_min (snd kv)) ?m)" by simp
  have ne: "note_entries ?a = [\<lparr>entry_id = ''n1'', originalMin = Fin 0, originalMax = Fin 10\<rparr>,
                              \<lparr>entry_id = ''n2'', originalMin = Fin 20, originalMax = Fin 30\<rparr>]"
    by (simp add: note_entries_def Object_entries_plain plain_keys List.map_filter_simps empty_record_def)
  have oa: "\<forall>e\<in>set (note_entries ?a). orderable (originalMin e)"
    by (simp add: ne orderable_def small_doubles)
  have da: "distinct (map originalMin (note_entries ?a))" by (simp add: ne)
  from reconciler_reordering[of ?m' ?m ?a' ?a] pm pa om dm oa da
  show ?thesis by blast
qed

text \<open>
  Two pages with the same \<open>observedMin\<close>: listed as \<open>A, B\<close> the segment of \<open>A\<close> is
  \<open>[0, 5]\<close>, listed as \<open>B, A\<close> it is \<open>[10, 10]\<close>.
\<close>

theorem reconciler_reordering_counterexample:
  "mset [(''B'', \<lparr>mm_min = Fin 0, mm_max = Fin 20\<rparr>), (''A'', \<lparr>mm_min = Fin 0, mm_max = Fin 10\<rparr>)]
     = mset [(''A'', \<lparr>mm_min = Fin 0, mm_max = Fin 10\<rparr>), (''B'', \<lparr>mm_min = Fin 0, mm_max = Fin 20\<rparr>)]
   \<and> orderCanvasMapping
        [(''A'', \<lparr>mm_min = Fin 0, mm_max = Fin 10\<rparr>), (''B'', \<lparr>mm_min = Fin 0, mm_max = Fin 20\<rparr>)]
     = Inr [\<lparr>seg_id = ''A'', seg_start = Fin 0, seg_end = Fin 5\<rparr>,
            \<lparr>seg_id = ''B'', seg_start = Fin 5, seg_end = Fin 20\<rparr>]
   \<and> orderCanvasMapping
        [(''B'', \<lparr>mm_min = Fin 0, mm_max = Fin 20\<rparr>), (''A'', \<lparr>mm_min = Fin 0, mm_max = Fin 10\<rparr>)]
     = Inr [\<lparr>seg_id = ''B'', seg_start = Fin 0, seg_end = Fin 10\<rparr>,
            \<lparr>seg_id = ''A'', seg_start = Fin 10, seg_end = Fin 10\<rparr>]
   \<and> set [\<lparr>seg_id = ''A'', seg_start = Fin 0, seg_end = Fin 5\<rparr>,
            \<lparr>seg_id = ''B'', seg_start = Fin 5, seg_end = Fin 20\<rparr>]
     \<noteq> set [\<lparr>seg_id = ''B'', seg_start = Fin 0, seg_end = Fin 10\<rparr>,
            \<lparr>seg_id = ''A'', seg_start = Fin 10, seg_end = Fin 10\<rparr>]"
proof -
  have 1: "orderCanvasMapping
        [(''A'', \<lparr>mm_min = Fin 0, mm_max = Fin 10\<rparr>), (''B'', \<lparr>mm_min = Fin 0, mm_max = Fin 20\<rparr>)]
     = Inr [\<lparr>seg_id = ''A'', seg_start = Fin 0, seg_end = Fin 5\<rparr>,
            \<lparr>seg_id = ''B'', seg_start = Fin 5, seg_end = Fin 20\<rparr>]"
    by (subst orderCanvasMapping_sorted(1))
       (simp_all add: plain_keys orderable_def small_doubles segments_def small_midpoints)
  have 2: "orderCanvasMapping
        [(''B'', \<lparr>mm_min = Fin 0, mm_max = Fin 20\<rparr>), (''A'', \<lparr>mm_min = Fin 0, mm_max = Fin 10\<rparr>)]
     = Inr [\<lparr>seg_id = ''B'', seg_start = Fin 0, seg_end = Fin 10\<rparr>,
            \<lparr>seg_id = ''A'', seg_start = Fin 10, seg_end = Fin 10\<rparr>]"
    by (subst orderCanvasMapping_sorted(1))
       (simp_all add: plain_keys orderable_def small_doubles segments_def small_midpoints)
  have "\<lparr>seg_id = ''A'', seg_start = Fin 0, seg_end = Fin 5\<rparr>
      \<in> set [\<lparr>seg_id = ''A'', seg_start = Fin 0, seg_end = Fin 5\<rparr>,
            \<lparr>seg_id = ''B'', seg_start = Fin 5, seg_end = Fin 20\<rparr>]"
    by simp
  moreover have "\<lparr>seg_id = ''A'', seg_start = Fin 0, seg_end = Fin 5\<rparr>
      \<notin> set [\<lparr>seg_id = ''B'', seg_start = Fin 0, seg_end = Fin 10\<rparr>,
            \<lparr>seg_id = ''A'', seg_start = Fin 10, seg_end = Fin 10\<rparr>]"
    by simp
  ultimately have 3: "set [\<lparr>seg_id = ''A'', seg_start = Fin 0, seg_end = Fin 5\<rparr>,
            \<lparr>seg_id = ''B'', seg_start = Fin 5, seg_end = Fin 20\<rparr>]
     \<noteq> set [\<lparr>seg_id = ''B'', seg_start = Fin 0, seg_end = Fin 10\<rparr>,
            \<lparr>seg_id = ''A'', seg_start = Fin 10, seg_end = Fin 10\<rparr>]"
    by metis
  have 0: "mset [(''B'', \<lparr>mm_min = Fin 0, mm_max = Fin 20\<rparr>), (''A'', \<lparr>mm_min = Fin 0, mm_max = Fin 10\<rparr>)]
     = mset [(''A'', \<lparr>mm_min = Fin 0, mm_max = Fin 10\<rparr>), (''B'', \<lparr>mm_min = Fin 0, mm_max = Fin 20\<rparr>)]"
    by (simp add: add_mset_commute)
  from 0 1 2 3 show ?thesis by blast
qed


subsection \<open>The partition of well-ordered triples\<close>

lemma in_range_Fin:
  assumes "in_range v"
  obtains x where "v = Fin x" "fl x = Fin x" "\<bar>x\<bar> < 2 powi 1023"
  using assms by (cases v) (auto simp: in_range_def simp del: power_int_numeral)

lemma in_range_orderable: "in_range v \<Longrightarrow> orderable v"
  by (erule in_range_Fin) (simp add: orderable_def)

lemma in_range_midpoint_same: "in_range v \<Longrightarrow> midpoint v v = v"
  by (erule in_range_Fin) (simp add: midpoint_same in_range_def del: power_int_numeral)

lemma under_first:
  assumes "proper e"
  shows "under (originalMin e) e"
proof (intro allI impI)
  fix x y
  assume mx: "num_le (originalMax e) (Fin x)" and mn: "num_le (originalMin e) (Fin y)"
  obtain c where c: "originalMin e = Fin c" and rc: "in_range (Fin c)"
    using assms by (metis in_range_Fin)
  have "num_le (Fin c) (Fin x)"
    using assms mx c by (metis num_le_trans)
  then have "c \<le> x" by simp
  moreover have "c \<le> y" using mn c by simp
  ultimately have "num_le (midpoint (Fin c) (Fin c)) (midpoint (Fin x) (Fin y))"
    by (rule midpoint_mono)
  then show "num_le (originalMin e) (midpoint (Fin x) (Fin y))"
    using midpoint_same[OF rc] c by simp
qed

lemma under_next:
  assumes "proper e" "proper n" "below e n"
  shows "under (midpoint (originalMax e) (originalMin n)) n"
proof (intro allI impI)
  fix x y
  assume mx: "num_le (originalMax n) (Fin x)" and mn: "num_le (originalMin n) (Fin y)"
  obtain a where a: "originalMax e = Fin a" using assms(1) by (metis in_range_Fin)
  obtain b where b: "originalMin n = Fin b" using assms(2) by (metis in_range_Fin)
  have "num_le (Fin a) (Fin x)"
    using assms(3) mx a by (metis num_le_trans)
  then have "a \<le> x" by simp
  moreover have "b \<le> y" using mn b by simp
  ultimately show "num_le (midpoint (originalMax e) (originalMin n)) (midpoint (Fin x) (Fin y))"
    unfolding a b by (rule midpoint_mono)
qed

lemma under_end:
  assumes "proper e" "under s e"
  shows "num_le s (originalMax e)"
proof -
  obtain m where m: "originalMax e = Fin m" and rm: "in_range (Fin m)"
    using assms(1) by (metis in_range_Fin)
  have "num_le (originalMax e) (Fin m)" by (simp add: m)
  moreover have "num_le (originalMin e) (Fin m)" using assms(1) m by simp
  ultimately have "num_le s (midpoint (Fin m) (Fin m))" using assms(2) by blast
  then show ?thesis using midpoint_same[OF rm] m by simp
qed

lemma under_mid:
  assumes "proper e" "proper n" "below e n" "under s e"
  shows "num_le s (midpoint (originalMax e) (originalMin n))"
proof -
  obtain a where a: "originalMax e = Fin a" using assms(1) by (metis in_range_Fin)
  obtain b where b: "originalMin n = Fin b" using assms(2) by (metis in_range_Fin)
  have "num_le (originalMax e) (Fin a)" by (simp add: a)
  moreover have "num_le (originalMin e) (Fin b)" using assms(3) b by simp
  ultimately show ?thesis using assms(4) a b by metis
qed

lemma segments_from_ordered:
  assumes "sorted_wrt below ss" "\<forall>e\<in>set ss. proper e" "ss \<noteq> []" "under s (hd ss)"
  shows "sorted_wrt (\<lambda>g h. num_le (seg_start g) (seg_start h)) (segments_from s ss)
    \<and> (\<forall>g\<in>set (segments_from s ss). num_le (seg_start g) (seg_end g))
    \<and> (\<forall>g\<in>set (segments_from s ss). num_le s (seg_start g))"
  using assms
proof (induction s ss rule: segments_from.induct)
  case (1 s)
  then show ?case by simp
next
  case (2 s e)
  then have "num_le s (originalMax e)" using under_end[of e s] by simp
  moreover from this have "num_le s s" using num_le_not_NaN by (metis num_le_refl)
  ultimately show ?case by simp
next
  case (3 s e n es)
  let ?t = "midpoint (originalMax e) (originalMin n)"
  have pe: "proper e" and pn: "proper n" using "3.prems"(2) by simp_all
  have b: "below e n" using "3.prems"(1) by simp
  have st: "num_le s ?t" using under_mid[OF pe pn b] "3.prems"(4) by simp
  then have ss: "num_le s s" using num_le_not_NaN by (metis num_le_refl)
  have ih: "sorted_wrt (\<lambda>g h. num_le (seg_start g) (seg_start h)) (segments_from ?t (n # es))
    \<and> (\<forall>g\<in>set (segments_from ?t (n # es)). num_le (seg_start g) (seg_end g))
    \<and> (\<forall>g\<in>set (segments_from ?t (n # es)). num_le ?t (seg_start g))"
    using "3.prems"(1,2) under_next[OF pe pn b] by (intro "3.IH") simp_all
  have later: "\<forall>g\<in>set (segments_from ?t (n # es)). num_le s (seg_start g)"
    using ih st by (metis num_le_trans)
  show ?case
    using ih st ss later by simp
qed

lemma sorted_below:
  assumes "well_ordered_ranges es" "set ss = set es" "sorted (map min_key ss)"
  shows "sorted_wrt below ss" "\<forall>e\<in>set ss. proper e"
proof -
  show p: "\<forall>e\<in>set ss. proper e"
    using assms(1,2) by (simp add: well_ordered_ranges_def)
  have "sorted_wrt (\<lambda>a b. min_key a \<le> min_key b) ss"
    using assms(3) by (simp add: sorted_map)
  moreover have "below a b" if "a \<in> set ss" "b \<in> set ss" "min_key a \<le> min_key b" for a b
  proof -
    have "originalMin a \<noteq> NaN" "originalMin b \<noteq> NaN"
      using p that(1,2) in_range_orderable by (auto simp: orderable_def)
    then have "num_le (originalMin a) (originalMin b)"
      using that(3) by (simp add: num_le_key)
    moreover from this have "num_le (originalMax a) (originalMax b)"
      using assms(1,2) that(1,2) by (simp add: well_ordered_ranges_def)
    ultimately show ?thesis by simp
  qed
  ultimately show "sorted_wrt below ss"
    by (rule sorted_wrt_mono_rel[rotated]) auto
qed

lemma segments_partition:
  assumes "well_ordered_ranges es" "set ss = set es" "length ss = length es"
    "sorted (map min_key ss)"
  shows "partition_of es (segments ss)"
proof (cases ss)
  case Nil
  then have "es = []" using assms(3) by simp
  with Nil show ?thesis by (simp add: partition_of_def segments_def)
next
  case (Cons e0 rest)
  let ?segs = "segments ss"
  have ne: "ss \<noteq> []" using Cons by simp
  note sb = sorted_below[OF assms(1,2,4)]
  have segs: "?segs = segments_from (originalMin (hd ss)) ss"
    using Cons by (simp add: segments_def)
  have "under (originalMin (hd ss)) (hd ss)"
    using sb(2) ne by (intro under_first) simp
  from segments_from_ordered[OF sb ne this]
  have so: "sorted_wrt (\<lambda>g h. num_le (seg_start g) (seg_start h)) ?segs"
    and iv: "\<forall>g\<in>set ?segs. num_le (seg_start g) (seg_end g)"
    by (simp_all add: segs)
  have len: "length ?segs = length es" using assms(3) by simp
  have asc: "num_le (seg_start (?segs ! i)) (seg_start (?segs ! j))"
    if "i < j" "j < length ?segs" for i j
    using so that by (simp add: sorted_wrt_iff_nth_less)
  have ivn: "num_le (seg_start (?segs ! i)) (seg_end (?segs ! i))" if "i < length ?segs" for i
    using iv that by simp
  have cont: "seg_end (?segs ! i) = seg_start (?segs ! Suc i)" if "Suc i < length ?segs" for i
    using that segments_contiguous[of i ss] by simp
  have nov: "num_le (seg_end (?segs ! i)) (seg_start (?segs ! j))"
    if "i < j" "j < length ?segs" for i j
  proof (cases "Suc i = j")
    case True
    then have "seg_end (?segs ! i) = seg_start (?segs ! j)" using cont that by simp
    moreover have "seg_start (?segs ! j) \<noteq> NaN"
      using ivn[OF that(2)] num_le_not_NaN by blast
    ultimately show ?thesis by simp
  next
    case False
    then have "Suc i < j" using that by simp
    then have "num_le (seg_start (?segs ! Suc i)) (seg_start (?segs ! j))"
      using asc that by simp
    moreover have "seg_end (?segs ! i) = seg_start (?segs ! Suc i)"
      using cont that by simp
    ultimately show ?thesis by simp
  qed
  have nth_below: "below (ss ! i) (ss ! j)" if "i \<le> j" "j < length ss" for i j
  proof (cases "i = j")
    case True
    have "proper (ss ! j)" using sb(2) that by simp
    then have "originalMin (ss ! j) \<noteq> NaN \<and> originalMax (ss ! j) \<noteq> NaN"
      using num_le_not_NaN by blast
    with True show ?thesis by simp
  next
    case False
    then show ?thesis using sb(1) that by (simp add: sorted_wrt_iff_nth_less)
  qed
  have first: "seg_start (?segs ! 0) = originalMin (ss ! 0)"
    using ne by (rule segments_start)
  have lst: "seg_end (last ?segs) = originalMax (last ss)"
    using ne by (rule segments_last_end)
  have in_es: "ss ! 0 \<in> set es" "last ss \<in> set es"
    using ne assms(2) by (metis nth_mem length_greater_0_conv, metis last_in_set)
  have lo: "num_le (seg_start (?segs ! 0)) (originalMin e)" if "e \<in> set es" for e
  proof -
    from that assms(2) obtain j where "j < length ss" "ss ! j = e"
      by (metis in_set_conv_nth)
    then show ?thesis using nth_below[of 0 j] first by auto
  qed
  have hi: "num_le (originalMax e) (seg_end (last ?segs))" if "e \<in> set es" for e
  proof -
    from that assms(2) obtain j where j: "j < length ss" "ss ! j = e"
      by (metis in_set_conv_nth)
    have "last ss = ss ! (length ss - 1)" using ne by (rule last_conv_nth)
    moreover have "j \<le> length ss - 1" "length ss - 1 < length ss" using j ne by simp_all
    ultimately show ?thesis using nth_below[of j "length ss - 1"] j lst by auto
  qed
  show ?thesis
    unfolding partition_of_def
    using len asc ivn nov cont first lst in_es lo hi by auto
qed

lemma reconcile_partition:
  assumes "well_ordered_ranges es"
  shows "\<exists>segs. reconcile es = Inr segs \<and> partition_of es segs"
proof -
  have o: "\<forall>e\<in>set es. orderable (originalMin e)"
    using assms in_range_orderable by (simp add: well_ordered_ranges_def)
  have "partition_of es (segments (sort_key min_key es))"
    using assms by (intro segments_partition) simp_all
  then show ?thesis
    by (simp add: reconcile_orderable[OF o])
qed

text \<open>
  C1, as the code has it.  For triples that are finite numbers in range with
  \<open>observedMin \<le> observedMax\<close>, and whose \<open>observedMax\<close> values are ordered as their
  \<open>observedMin\<close> values are, \<open>orderCanvasMapping\<close> and \<open>orderAnnotationMapping\<close> return a
  partition: the starts ascend (equal starts can occur), every segment ends where the
  next one starts, no two segments overlap, and the segments reach from the least
  \<open>observedMin\<close> to the greatest \<open>observedMax\<close>.
\<close>

theorem reconciler_partition:
  "(well_ordered_ranges (canvas_entries m)
      \<longrightarrow> (\<exists>segs. orderCanvasMapping m = Inr segs \<and> partition_of (canvas_entries m) segs))
   \<and> (well_ordered_ranges (note_entries a)
      \<longrightarrow> (\<exists>segs. orderAnnotationMapping a = Inr segs \<and> partition_of (note_entries a) segs))"
  using reconcile_partition[of "canvas_entries m"] reconcile_partition[of "note_entries a"]
  by (simp add: orderCanvasMapping_def orderAnnotationMapping_def)

lemma canvas_entries_plain:
  assumes "\<forall>kv\<in>set m. \<not> is_array_index (fst kv)"
  shows "canvas_entries m
    = map (\<lambda>(id, range). \<lparr>entry_id = id, originalMin = mm_min range, originalMax = mm_max range\<rparr>) m"
  using assms by (simp add: canvas_entries_def Object_entries_plain)

lemma in_range_small:
  "in_range (Fin 0)" "in_range (Fin 1)" "in_range (Fin 2)" "in_range (Fin 3)" "in_range (Fin 4)"
  "in_range (Fin 10)" "in_range (Fin 20)" "in_range (Fin 30)"
  by (simp_all add: in_range_def small_doubles)

text \<open>Two pages and two notes with separate ranges.\<close>

theorem reconciler_partition_witness:
  "well_ordered_ranges (canvas_entries
     [(''A'', \<lparr>mm_min = Fin 0, mm_max = Fin 10\<rparr>), (''B'', \<lparr>mm_min = Fin 20, mm_max = Fin 30\<rparr>)])
   \<and> orderCanvasMapping
       [(''A'', \<lparr>mm_min = Fin 0, mm_max = Fin 10\<rparr>), (''B'', \<lparr>mm_min = Fin 20, mm_max = Fin 30\<rparr>)]
     = Inr [\<lparr>seg_id = ''A'', seg_start = Fin 0, seg_end = Fin 15\<rparr>,
            \<lparr>seg_id = ''B'', seg_start = Fin 15, seg_end = Fin 30\<rparr>]
   \<and> partition_of (canvas_entries
       [(''A'', \<lparr>mm_min = Fin 0, mm_max = Fin 10\<rparr>), (''B'', \<lparr>mm_min = Fin 20, mm_max = Fin 30\<rparr>)])
       [\<lparr>seg_id = ''A'', seg_start = Fin 0, seg_end = Fin 15\<rparr>,
        \<lparr>seg_id = ''B'', seg_start = Fin 15, seg_end = Fin 30\<rparr>]
   \<and> well_ordered_ranges (note_entries
       [(''n1'', empty_record\<lparr>audio := Some \<lparr>t_start = Fin 0, t_end = Fin 10\<rparr>,
                              svgSelector := Some (toSvg (Fin 1) (Fin 1) [])\<rparr>),
        (''n2'', empty_record\<lparr>audio := Some \<lparr>t_start = Fin 20, t_end = Fin 30\<rparr>,
                              svgSelector := Some (toSvg (Fin 1) (Fin 1) [])\<rparr>)])
   \<and> (\<exists>segs. orderAnnotationMapping
       [(''n1'', empty_record\<lparr>audio := Some \<lparr>t_start = Fin 0, t_end = Fin 10\<rparr>,
                              svgSelector := Some (toSvg (Fin 1) (Fin 1) [])\<rparr>),
        (''n2'', empty_record\<lparr>audio := Some \<lparr>t_start = Fin 20, t_end = Fin 30\<rparr>,
                              svgSelector := Some (toSvg (Fin 1) (Fin 1) [])\<rparr>)] = Inr segs)"
proof -
  let ?m = "[(''A'', \<lparr>mm_min = Fin 0, mm_max = Fin 10\<rparr>), (''B'', \<lparr>mm_min = Fin 20, mm_max = Fin 30\<rparr>)]"
  let ?a = "[(''n1'', empty_record\<lparr>audio := Some \<lparr>t_start = Fin 0, t_end = Fin 10\<rparr>,
                              svgSelector := Some (toSvg (Fin 1) (Fin 1) [])\<rparr>),
        (''n2'', empty_record\<lparr>audio := Some \<lparr>t_start = Fin 20, t_end = Fin 30\<rparr>,
                              svgSelector := Some (toSvg (Fin 1) (Fin 1) [])\<rparr>)]"
  let ?segs = "[\<lparr>seg_id = ''A'', seg_start = Fin 0, seg_end = Fin 15\<rparr>,
            \<lparr>seg_id = ''B'', seg_start = Fin 15, seg_end = Fin 30\<rparr>]"
  have wm: "well_ordered_ranges (canvas_entries ?m)"
    by (simp add: canvas_entries_plain plain_keys well_ordered_ranges_def in_range_small)
  have ne: "note_entries ?a = [\<lparr>entry_id = ''n1'', originalMin = Fin 0, originalMax = Fin 10\<rparr>,
                              \<lparr>entry_id = ''n2'', originalMin = Fin 20, originalMax = Fin 30\<rparr>]"
    by (simp add: note_entries_def Object_entries_plain plain_keys List.map_filter_simps empty_record_def)
  have wa: "well_ordered_ranges (note_entries ?a)"
    by (simp add: ne well_ordered_ranges_def in_range_small)
  have v: "orderCanvasMapping ?m = Inr ?segs"
    by (subst orderCanvasMapping_sorted(1))
       (simp_all add: plain_keys orderable_def small_doubles segments_def small_midpoints)
  from reconciler_partition[of ?m ?a] wm wa v
  show ?thesis by auto
qed

text \<open>
  A page whose range \<open>[0, 10]\<close> contains the ranges of the two pages after it: the starts
  are \<open>0\<close>, \<open>5.5\<close>, \<open>2.5\<close>, not ascending, the segments of \<open>A\<close> and \<open>C\<close> overlap, and the
  last end is \<open>4\<close>, below the greatest \<open>observedMax\<close> \<open>10\<close>.  Two pages at the single
  instant \<open>0\<close> get equal starts, so the order of the starts is not strict.
\<close>

theorem reconciler_partition_counterexample:
  "orderCanvasMapping
     [(''A'', \<lparr>mm_min = Fin 0, mm_max = Fin 10\<rparr>), (''B'', \<lparr>mm_min = Fin 1, mm_max = Fin 2\<rparr>),
      (''C'', \<lparr>mm_min = Fin 3, mm_max = Fin 4\<rparr>)]
     = Inr [\<lparr>seg_id = ''A'', seg_start = Fin 0, seg_end = Fin (11 / 2)\<rparr>,
            \<lparr>seg_id = ''B'', seg_start = Fin (11 / 2), seg_end = Fin (5 / 2)\<rparr>,
            \<lparr>seg_id = ''C'', seg_start = Fin (5 / 2), seg_end = Fin 4\<rparr>]
   \<and> \<not> num_le (Fin (11 / 2)) (Fin (5 / 2))
   \<and> \<not> num_le (Fin 10) (Fin 4)
   \<and> orderCanvasMapping
     [(''A'', \<lparr>mm_min = Fin 0, mm_max = Fin 0\<rparr>), (''B'', \<lparr>mm_min = Fin 0, mm_max = Fin 0\<rparr>)]
     = Inr [\<lparr>seg_id = ''A'', seg_start = Fin 0, seg_end = Fin 0\<rparr>,
            \<lparr>seg_id = ''B'', seg_start = Fin 0, seg_end = Fin 0\<rparr>]"
proof -
  have 1: "orderCanvasMapping
     [(''A'', \<lparr>mm_min = Fin 0, mm_max = Fin 10\<rparr>), (''B'', \<lparr>mm_min = Fin 1, mm_max = Fin 2\<rparr>),
      (''C'', \<lparr>mm_min = Fin 3, mm_max = Fin 4\<rparr>)]
     = Inr [\<lparr>seg_id = ''A'', seg_start = Fin 0, seg_end = Fin (11 / 2)\<rparr>,
            \<lparr>seg_id = ''B'', seg_start = Fin (11 / 2), seg_end = Fin (5 / 2)\<rparr>,
            \<lparr>seg_id = ''C'', seg_start = Fin (5 / 2), seg_end = Fin 4\<rparr>]"
    by (subst orderCanvasMapping_sorted(1))
       (simp_all add: plain_keys orderable_def small_doubles segments_def small_midpoints)
  have 2: "orderCanvasMapping
     [(''A'', \<lparr>mm_min = Fin 0, mm_max = Fin 0\<rparr>), (''B'', \<lparr>mm_min = Fin 0, mm_max = Fin 0\<rparr>)]
     = Inr [\<lparr>seg_id = ''A'', seg_start = Fin 0, seg_end = Fin 0\<rparr>,
            \<lparr>seg_id = ''B'', seg_start = Fin 0, seg_end = Fin 0\<rparr>]"
    by (subst orderCanvasMapping_sorted(1))
       (simp_all add: plain_keys orderable_def small_doubles segments_def small_midpoints)
  from 1 2 show ?thesis by simp
qed

section \<open>The page scenario of the specification\<close>

text \<open>The doubles of the decimal literals of the scenario, and the arithmetic on them.\<close>

lemma lit_037: "js_lit (37 / 100) = Fin (3332663724254167 / 9007199254740992)"
  using fl_nearest[of "- 54" "37 / 100" 6665327448508334] by (simp add: js_lit_def)

lemma lit_631: "js_lit (631 / 10) = Fin (8880535515221197 / 140737488355328)"
  using fl_nearest[of "- 47" "631 / 10" 8880535515221197] by (simp add: js_lit_def)

lemma lit_6415: "js_lit (1283 / 20) = Fin (2257077469498573 / 35184372088832)"
  using fl_nearest[of "- 46" "1283 / 20" 4514154938997146] by (simp add: js_lit_def)

lemma lit_14438: "js_lit (7219 / 50) = Fin (1269979910546391 / 8796093022208)"
  using fl_nearest[of "- 45" "7219 / 50" 5079919642185564] by (simp add: js_lit_def)

lemma lit_63625: "js_lit (509 / 8) = Fin (509 / 8)"
  using fl_dyadic[of 509 3] by (simp add: js_lit_def)

lemma scenario_doubles:
  "fl (3332663724254167 / 9007199254740992) = Fin (3332663724254167 / 9007199254740992)"
  "fl (2257077469498573 / 35184372088832) = Fin (2257077469498573 / 35184372088832)"
  using fl_dyadic[of 3332663724254167 53] fl_dyadic[of 2257077469498573 45]
  by simp_all

lemma mid_AB:
  "midpoint (Fin (8880535515221197 / 140737488355328)) (Fin (2257077469498573 / 35184372088832))
     = Fin (509 / 8)"
proof -
  have "fl (8880535515221197 / 140737488355328 + 2257077469498573 / 35184372088832) = Fin (509 / 4)"
    using fl_tie[of "- 46" "8880535515221197 / 140737488355328 + 2257077469498573 / 35184372088832"
        8954422696607744]
    by simp
  moreover have "fl (509 / 8) = Fin (509 / 8)"
    using fl_dyadic[of 509 3] by simp
  ultimately show ?thesis by (simp add: midpoint_def)
qed

text \<open>
  C3.  For the page accumulator \<open>{A: {min: 0.37, max: 63.1}, B: {min: 64.15, max: 144.38}}\<close>
  \<open>orderCanvasMapping\<close> returns
  \<open>[{id: A, start: 0.37, end: 63.625}, {id: B, start: 63.625, end: 144.38}]\<close>.
  The exact sum of the doubles of \<open>63.1\<close> and \<open>64.15\<close> lies halfway between two doubles
  and rounds to the even one, \<open>127.25\<close>, whose half is \<open>63.625\<close>.
\<close>

theorem orderCanvasMapping_scenario:
  "orderCanvasMapping
     [(''A'', \<lparr>mm_min = js_lit (37 / 100), mm_max = js_lit (631 / 10)\<rparr>),
      (''B'', \<lparr>mm_min = js_lit (1283 / 20), mm_max = js_lit (7219 / 50)\<rparr>)]
   = Inr [\<lparr>seg_id = ''A'', seg_start = js_lit (37 / 100), seg_end = js_lit (509 / 8)\<rparr>,
          \<lparr>seg_id = ''B'', seg_start = js_lit (509 / 8), seg_end = js_lit (7219 / 50)\<rparr>]"
  unfolding lit_037 lit_631 lit_6415 lit_14438 lit_63625
  by (subst orderCanvasMapping_sorted(1))
     (simp_all add: plain_keys orderable_def scenario_doubles segments_def mid_AB)

section \<open>The temporal pattern\<close>

lemma starts_with_Nil [simp]: "starts_with [] s"
  by (simp add: starts_with_def)

lemma starts_with_Cons:
  "starts_with (a # p) s \<longleftrightarrow> (\<exists>r. s = a # r \<and> starts_with p r)"
  by (cases s) (auto simp: starts_with_def)

lemma starts_with_append: "starts_with p (p @ s)"
  by (simp add: starts_with_def)

lemma starts_with_iff: "starts_with p s \<longleftrightarrow> (\<exists>r. s = p @ r)"
proof
  assume "starts_with p s"
  then have "s = p @ drop (length p) s"
    by (metis append_take_drop_id starts_with_def)
  then show "\<exists>r. s = p @ r" ..
qed (auto simp: starts_with_append)

lemma starts_with_contains: "starts_with p s \<Longrightarrow> contains p s"
  by (cases s) auto

lemma contains_iff: "contains p s \<longleftrightarrow> (\<exists>pre post. s = pre @ p @ post)"
proof (induction s)
  case Nil
  then show ?case by (auto simp: starts_with_iff)
next
  case (Cons c cs)
  show ?case
  proof
    assume "contains p (c # cs)"
    then consider "starts_with p (c # cs)" | "contains p cs" by auto
    then show "\<exists>pre post. c # cs = pre @ p @ post"
    proof cases
      case 1
      then obtain r where "c # cs = [] @ p @ r" by (auto simp: starts_with_iff)
      then show ?thesis by blast
    next
      case 2
      with Cons.IH obtain pre post where "cs = pre @ p @ post" by blast
      then have "c # cs = (c # pre) @ p @ post" by simp
      then show ?thesis by blast
    qed
  next
    assume "\<exists>pre post. c # cs = pre @ p @ post"
    then obtain pre post where e: "c # cs = pre @ p @ post" by blast
    show "contains p (c # cs)"
    proof (cases pre)
      case Nil
      with e show ?thesis by (metis append_Nil starts_with_append starts_with_contains)
    next
      case (Cons a pre')
      with e have "cs = pre' @ p @ post" by simp
      with Cons.IH show ?thesis by auto
    qed
  qed
qed

lemma match_here_None_iff:
  "match_here s = None \<longleftrightarrow> \<not> starts_with ''t='' (if starts_with ''&'' s then tl s else s)"
  by (simp add: match_here_def Let_def)

lemma temporal_match_Cons_None:
  "temporal_match (c # cs) = None \<longleftrightarrow> match_here (c # cs) = None \<and> temporal_match cs = None"
  by (simp split: option.splits)

lemma temporal_match_None_iff: "temporal_match s = None \<longleftrightarrow> \<not> contains ''t='' s"
proof (induction s)
  case Nil
  then show ?case by (simp add: match_here_def starts_with_def)
next
  case (Cons c cs)
  show ?case
  proof (cases "starts_with ''&'' (c # cs)")
    case True
    then have "\<not> starts_with ''t='' (c # cs)"
      by (auto simp: starts_with_Cons)
    moreover have "match_here (c # cs) = None \<longleftrightarrow> \<not> starts_with ''t='' cs"
      using True by (simp add: match_here_None_iff)
    ultimately show ?thesis
      using Cons.IH starts_with_contains[of "''t=''" cs]
      by (auto simp: temporal_match_Cons_None)
  next
    case False
    then have "match_here (c # cs) = None \<longleftrightarrow> \<not> starts_with ''t='' (c # cs)"
      by (simp add: match_here_None_iff)
    then show ?thesis
      using Cons.IH by (auto simp: temporal_match_Cons_None)
  qed
qed

lemma temporal_match_first:
  "\<not> contains ''t='' pre \<Longrightarrow> temporal_match (pre @ ''t='' @ rest) = Some (groups_after rest)"
proof (induction pre)
  case Nil
  then show ?case by (simp add: match_here_def starts_with_def)
next
  case (Cons c pre)
  then have nsw: "\<not> starts_with ''t='' (c # pre)" and nc: "\<not> contains ''t='' pre"
    by auto
  have ih: "temporal_match (pre @ ''t='' @ rest) = Some (groups_after rest)"
    using Cons.IH nc by simp
  have nsw2: "\<not> starts_with ''t='' (c # pre @ ''t='' @ rest)"
    using nsw by (cases pre) (auto simp: starts_with_Cons)
  show ?case
  proof (cases "starts_with ''&'' (c # pre @ ''t='' @ rest) \<and> starts_with ''t='' (pre @ ''t='' @ rest)")
    case True
    have "pre = []"
    proof (rule ccontr)
      assume "pre \<noteq> []"
      then obtain a p where p: "pre = a # p" by (cases pre) auto
      with True have "starts_with ''t='' pre"
        by (cases p) (auto simp: starts_with_Cons)
      with nc show False using starts_with_contains by blast
    qed
    with True show ?thesis
      by (simp add: match_here_def)
  next
    case False
    then have "match_here (c # pre @ ''t='' @ rest) = None"
      using nsw2 by (auto simp: match_here_None_iff)
    with ih show ?thesis by simp
  qed
qed

lemma parseFloat_undefined: "parseFloat (ToString None) = NaN"
  by code_simp

lemma takeWhile_no_digit: "list_all (\<lambda>c. \<not> is_digit c) s \<Longrightarrow> takeWhile is_digit s = []"
  by (cases s) auto

lemma take_number_no_digit: "list_all (\<lambda>c. \<not> is_digit c) s \<Longrightarrow> take_number s = None"
  by (simp add: take_number_def takeWhile_no_digit)

lemma groups_after_no_digit:
  assumes "list_all (\<lambda>c. \<not> is_digit c) rest"
  shows "groups_after rest = \<lparr>group3 = None, group6 = None\<rparr>"
proof -
  have d: "list_all (\<lambda>c. \<not> is_digit c) (drop n rest)" for n
    using assms by (auto simp: list_all_iff dest: in_set_dropD)
  have t: "list_all (\<lambda>c. \<not> is_digit c) (tl s)" if "list_all (\<lambda>c. \<not> is_digit c) s" for s
    using that by (cases s) auto
  show ?thesis
    using assms d[of 4] t[OF assms] t[OF d[of 4]]
    by (simp add: groups_after_def Let_def take_number_no_digit)
qed

section \<open>Properties of the fragment parsers\<close>

text \<open>
  C6.  A string in which \<open>t=\<close> does not occur does not match the temporal pattern, and
  \<open>getTime\<close> returns \<open>{start: 0, end: 0}\<close> for it.  \<open>getTime\<close> has no failing branch:
  on a string, \<open>match\<close> and \<open>parseFloat\<close> do not raise.
\<close>

theorem getTime_no_match:
  "\<not> contains ''t='' frag \<Longrightarrow> getTime frag = \<lparr>t_start = Fin 0, t_end = Fin 0\<rparr>"
  by (simp add: getTime_def temporal_match_None_iff[symmetric])

text \<open>A spatial fragment without \<open>t=\<close> as an instance.\<close>

theorem getTime_no_match_witness:
  "\<not> contains ''t='' ''xywh=0,0,10,10''
   \<and> getTime ''xywh=0,0,10,10'' = \<lparr>t_start = Fin 0, t_end = Fin 0\<rparr>"
proof -
  have h: "\<not> contains ''t='' ''xywh=0,0,10,10''"
    by (simp add: starts_with_def)
  show ?thesis using h getTime_no_match[OF h] by simp
qed

lemma digit_facts:
  assumes "is_digit d"
  shows "\<not> is_space d" "d \<noteq> CHR ''n''" "d \<noteq> CHR '',''" "d \<noteq> CHR ''-''" "d \<noteq> CHR ''+''"
    "d \<noteq> CHR ''I''" "d \<noteq> CHR ''&''" "d \<noteq> CHR ''.''"
  using assms by (auto simp: is_digit_def is_space_def)

lemma take_number_Some_hd:
  assumes "take_number n = Some (m, r)"
  shows "\<exists>d n'. n = d # n' \<and> is_digit d"
proof -
  from assms have "takeWhile is_digit n \<noteq> []"
    by (auto simp: take_number_def Let_def split: if_splits)
  then show ?thesis by (cases n) (auto split: if_splits)
qed

lemma groups_after_start_only:
  assumes "take_number n = Some (n, [])"
  shows "groups_after n = \<lparr>group3 = Some n, group6 = None\<rparr>"
proof -
  from take_number_Some_hd[OF assms] obtain d n' where n: "n = d # n'" and d: "is_digit d"
    by blast
  have "\<not> starts_with ''npt:'' n"
    using n digit_facts[OF d] by (simp add: starts_with_Cons)
  with assms show ?thesis
    by (simp add: groups_after_def Let_def starts_with_def)
qed

lemma groups_after_end_only:
  assumes "take_number n = Some (n, [])"
  shows "groups_after ('','' @ n) = \<lparr>group3 = None, group6 = Some n\<rparr>"
proof -
  have a: "\<not> starts_with ''npt:'' ('','' @ n)"
    by (simp add: starts_with_Cons)
  have b: "take_number ('','' @ n) = None"
    by (simp add: take_number_def is_digit_def)
  have c: "starts_with '','' ('','' @ n)"
    by (simp add: starts_with_Cons)
  show ?thesis
    using a b c assms by (simp add: groups_after_def Let_def)
qed

lemma parseFloat_number_text:
  assumes "take_number n = Some (n, [])"
  shows "parseFloat n \<noteq> NaN"
proof -
  from take_number_Some_hd[OF assms] obtain d n' where n: "n = d # n'" and d: "is_digit d"
    by blast
  have ws: "dropWhile is_space n = n"
    using n digit_facts[OF d] by simp
  have sg: "\<not> starts_with ''-'' n" "\<not> starts_with ''+'' n" "\<not> starts_with ''Infinity'' n"
    using n digit_facts[OF d] by (simp_all add: starts_with_Cons)
  have ip: "takeWhile is_digit n \<noteq> []"
    using n d by simp
  have "\<exists>m r. unsigned_decimal n = Some (Some m, r)"
    using sg ip by (auto simp: unsigned_decimal_def Let_def split: option.splits)
  then obtain m r where "unsigned_decimal n = Some (Some m, r)" by blast
  then show ?thesis
    using ws sg by (simp add: parseFloat_def signed_decimal_def number_of_def Let_def)
qed

text \<open>
  C7, as the code has it.  For a fragment with one bound, \<open>t=n\<close> or \<open>t=,n\<close> where \<open>n\<close>
  is digits with an optional fraction, \<open>getTime\<close> parses the bound that is present and
  leaves only the other one \<open>NaN\<close>.
\<close>

theorem getTime_one_bound:
  "take_number n = Some (n, []) \<Longrightarrow>
     getTime (''t='' @ n) = \<lparr>t_start = parseFloat n, t_end = NaN\<rparr> \<and>
     getTime (''t=,'' @ n) = \<lparr>t_start = NaN, t_end = parseFloat n\<rparr> \<and>
     parseFloat n \<noteq> NaN"
proof -
  assume h: "take_number n = Some (n, [])"
  have nc: "\<not> contains ''t='' []" by (simp add: starts_with_def)
  have m1: "temporal_match (''t='' @ n) = Some (groups_after n)"
    using temporal_match_first[OF nc, of n] by simp
  have m2: "temporal_match (''t=,'' @ n) = Some (groups_after ('','' @ n))"
    using temporal_match_first[OF nc, of "'','' @ n"] by simp
  have u: "parseFloat ''undefined'' = NaN"
    using parseFloat_undefined by (simp add: ToString_def)
  have g1: "getTime (''t='' @ n) = \<lparr>t_start = parseFloat n, t_end = NaN\<rparr>"
    unfolding getTime_def m1 groups_after_start_only[OF h]
    by (simp add: ToString_def u)
  have g2: "getTime (''t=,'' @ n) = \<lparr>t_start = NaN, t_end = parseFloat n\<rparr>"
    unfolding getTime_def m2 groups_after_end_only[OF h]
    by (simp add: ToString_def u)
  show ?thesis
    using g1 g2 parseFloat_number_text[OF h] by blast
qed

lemma parseFloat_exact:
  assumes "signed_decimal (dropWhile is_space s) = Some ((False, Some m), r)" "fl m = Fin m"
  shows "parseFloat s = Fin m"
  using assms by (simp add: parseFloat_def number_of_def)

lemma Number_exact:
  assumes "rev (dropWhile is_space (rev (dropWhile is_space s))) = t" "t \<noteq> []"
    "non_decimal t = None" "signed_decimal t = Some ((False, Some m), [])" "fl m = Fin m"
  shows "Number s = Fin m"
  using assms by (simp add: Number_def number_of_def)

lemma parseFloat_12_5: "parseFloat ''12.5'' = Fin (25 / 2)"
proof (rule parseFloat_exact)
  show "signed_decimal (dropWhile is_space ''12.5'') = Some ((False, Some (25 / 2)), [])"
    by code_simp
  show "fl (25 / 2) = Fin (25 / 2)" using fl_dyadic[of 25 1] by simp
qed

lemma parseFloat_18_0: "parseFloat ''18.0'' = Fin 18"
proof (rule parseFloat_exact)
  show "signed_decimal (dropWhile is_space ''18.0'') = Some ((False, Some 18), [])"
    by code_simp
  show "fl 18 = Fin 18" by simp
qed

lemma parseFloat_digit:
  "parseFloat ''1'' = Fin 1" "parseFloat ''2'' = Fin 2" "parseFloat ''5'' = Fin 5"
proof -
  have "signed_decimal (dropWhile is_space ''1'') = Some ((False, Some 1), [])"
    "signed_decimal (dropWhile is_space ''2'') = Some ((False, Some 2), [])"
    "signed_decimal (dropWhile is_space ''5'') = Some ((False, Some 5), [])"
    by code_simp+
  then show "parseFloat ''1'' = Fin 1" "parseFloat ''2'' = Fin 2" "parseFloat ''5'' = Fin 5"
    by (simp_all add: parseFloat_exact)
qed

lemma Number_values:
  "Number ''10'' = Fin 10" "Number ''20'' = Fin 20" "Number ''30'' = Fin 30" "Number ''40'' = Fin 40"
proof -
  have t: "rev (dropWhile is_space (rev (dropWhile is_space ''10''))) = ''10''"
    "rev (dropWhile is_space (rev (dropWhile is_space ''20''))) = ''20''"
    "rev (dropWhile is_space (rev (dropWhile is_space ''30''))) = ''30''"
    "rev (dropWhile is_space (rev (dropWhile is_space ''40''))) = ''40''"
    by code_simp+
  have n: "non_decimal ''10'' = None" "non_decimal ''20'' = None"
    "non_decimal ''30'' = None" "non_decimal ''40'' = None"
    by code_simp+
  have d: "signed_decimal ''10'' = Some ((False, Some 10), [])"
    "signed_decimal ''20'' = Some ((False, Some 20), [])"
    "signed_decimal ''30'' = Some ((False, Some 30), [])"
    "signed_decimal ''40'' = Some ((False, Some 40), [])"
    by code_simp+
  show "Number ''10'' = Fin 10" by (rule Number_exact[OF t(1) _ n(1) d(1)]) simp_all
  show "Number ''20'' = Fin 20" by (rule Number_exact[OF t(2) _ n(2) d(2)]) simp_all
  show "Number ''30'' = Fin 30" by (rule Number_exact[OF t(3) _ n(3) d(3)]) simp_all
  show "Number ''40'' = Fin 40" by (rule Number_exact[OF t(4) _ n(4) d(4)]) simp_all
qed

text \<open>The instance \<open>n = 12.5\<close>.\<close>

theorem getTime_one_bound_witness:
  "take_number ''12.5'' = Some (''12.5'', [])
   \<and> getTime ''t=12.5'' = \<lparr>t_start = Fin (25 / 2), t_end = NaN\<rparr>
   \<and> getTime ''t=,12.5'' = \<lparr>t_start = NaN, t_end = Fin (25 / 2)\<rparr>"
proof -
  have h: "take_number ''12.5'' = Some (''12.5'', [])"
    by code_simp
  show ?thesis using h getTime_one_bound[OF h] by (simp add: parseFloat_12_5)
qed

text \<open>
  For \<open>t=5\<close> the start is \<open>5\<close>, so the two fields are not both \<open>NaN\<close>.
\<close>

theorem getTime_one_bound_counterexample:
  "getTime ''t=5'' = \<lparr>t_start = Fin 5, t_end = NaN\<rparr> \<and> t_start (getTime ''t=5'') \<noteq> NaN"
proof -
  have m: "temporal_match ''t=5'' = Some \<lparr>group3 = Some ''5'', group6 = None\<rparr>"
    by code_simp
  have u: "parseFloat ''undefined'' = NaN"
    using parseFloat_undefined by (simp add: ToString_def)
  have "getTime ''t=5'' = \<lparr>t_start = Fin 5, t_end = NaN\<rparr>"
    unfolding getTime_def m by (simp add: ToString_def u parseFloat_digit)
  then show ?thesis by simp
qed

text \<open>
  C10, as the code has it.  When the first occurrence of \<open>t=\<close> in the string is followed
  by no digit at all, the pattern matches with both numeric groups absent and \<open>getTime\<close>
  returns \<open>{start: NaN, end: NaN}\<close>, not the default \<open>{start: 0, end: 0}\<close>.
\<close>

theorem getTime_no_digits:
  "\<not> contains ''t='' pre \<Longrightarrow> list_all (\<lambda>c. \<not> is_digit c) rest \<Longrightarrow>
     getTime (pre @ ''t='' @ rest) = \<lparr>t_start = NaN, t_end = NaN\<rparr>"
proof -
  assume p: "\<not> contains ''t='' pre" and r: "list_all (\<lambda>c. \<not> is_digit c) rest"
  have u: "parseFloat ''undefined'' = NaN"
    using parseFloat_undefined by (simp add: ToString_def)
  show ?thesis
    unfolding getTime_def temporal_match_first[OF p] groups_after_no_digit[OF r]
    by (simp add: ToString_def u)
qed

text \<open>The strings \<open>a&t=x\<close> and \<open>t=\<close> as instances.\<close>

theorem getTime_no_digits_witness:
  "\<not> contains ''t='' ''a&'' \<and> list_all (\<lambda>c. \<not> is_digit c) ''x''
   \<and> getTime ''a&t=x'' = \<lparr>t_start = NaN, t_end = NaN\<rparr>
   \<and> getTime ''t='' = \<lparr>t_start = NaN, t_end = NaN\<rparr>"
proof -
  have p: "\<not> contains ''t='' ''a&''" by (simp add: starts_with_def)
  have r: "list_all (\<lambda>c. \<not> is_digit c) ''x''" by (simp add: is_digit_def)
  have p0: "\<not> contains ''t='' []" by (simp add: starts_with_def)
  have r0: "list_all (\<lambda>c. \<not> is_digit c) []" by simp
  show ?thesis
    using p r getTime_no_digits[OF p r] getTime_no_digits[OF p0 r0] by simp
qed

text \<open>
  The string \<open>t=1,2&t=x\<close> contains \<open>t=\<close> followed by no digit, yet the match is the
  one at the first \<open>t=\<close> and both bounds are numbers.
\<close>

theorem getTime_no_digits_counterexample:
  "''t=1,2&t=x'' = ''t=1,2&'' @ ''t='' @ ''x'' \<and> list_all (\<lambda>c. \<not> is_digit c) ''x''
   \<and> getTime ''t=1,2&t=x'' = \<lparr>t_start = Fin 1, t_end = Fin 2\<rparr>"
proof -
  have m: "temporal_match ''t=1,2&t=x'' = Some \<lparr>group3 = Some ''1'', group6 = Some ''2''\<rparr>"
    by code_simp
  note v = parseFloat_digit(1,2)
  have "getTime ''t=1,2&t=x'' = \<lparr>t_start = Fin 1, t_end = Fin 2\<rparr>"
    unfolding getTime_def m by (simp add: ToString_def v)
  then show ?thesis by (simp add: is_digit_def)
qed

text \<open>
  C8.  \<open>getTime\<close> on \<open>t=12.5,18.0\<close> returns \<open>{start: 12.5, end: 18.0}\<close>, and
  \<open>parseFragmentSelector\<close> on \<open>((P10,20)(P10,40)(P30,40)(P30,20))\<close> returns
  \<open>[[10,20],[10,40],[30,40],[30,20]]\<close>.
\<close>

theorem parsers_round_trip:
  "getTime ''t=12.5,18.0'' = \<lparr>t_start = Fin (25 / 2), t_end = Fin 18\<rparr>
   \<and> parseFragmentSelector ''((P10,20)(P10,40)(P30,40)(P30,20))''
       = [[Fin 10, Fin 20], [Fin 10, Fin 40], [Fin 30, Fin 40], [Fin 30, Fin 20]]"
proof -
  have m: "temporal_match ''t=12.5,18.0'' = Some \<lparr>group3 = Some ''12.5'', group6 = Some ''18.0''\<rparr>"
    by code_simp
  have g: "getTime ''t=12.5,18.0'' = \<lparr>t_start = Fin (25 / 2), t_end = Fin 18\<rparr>"
    unfolding getTime_def m by (simp add: ToString_def parseFloat_12_5 parseFloat_18_0)
  have s: "split '')('' (strip_outer ''((P10,20)(P10,40)(P30,40)(P30,20))'')
             = [''P10,20'', ''P10,40'', ''P30,40'', ''P30,20'']"
    by code_simp
  have c: "split '','' (remove1 CHR ''P'' ''P10,20'') = [''10'', ''20'']"
    "split '','' (remove1 CHR ''P'' ''P10,40'') = [''10'', ''40'']"
    "split '','' (remove1 CHR ''P'' ''P30,40'') = [''30'', ''40'']"
    "split '','' (remove1 CHR ''P'' ''P30,20'') = [''30'', ''20'']"
    by code_simp+
  have p: "parseFragmentSelector ''((P10,20)(P10,40)(P30,40)(P30,20))''
       = [[Fin 10, Fin 20], [Fin 10, Fin 40], [Fin 30, Fin 40], [Fin 30, Fin 20]]"
    unfolding parseFragmentSelector_def s by (simp only: list.map c Number_values)
  show ?thesis using g p by blast
qed

section \<open>The join on inherited names\<close>

lemma and_then_simps [simp]:
  "and_then (Inl e) f = Inl e" "and_then (Inr x) f = f x"
  by (simp_all add: and_then_def)

lemma getTime_1_2: "getTime ''t=1,2'' = \<lparr>t_start = Fin 1, t_end = Fin 2\<rparr>"
proof -
  have m: "temporal_match ''t=1,2'' = Some \<lparr>group3 = Some ''1'', group6 = Some ''2''\<rparr>"
    by code_simp
  show ?thesis unfolding getTime_def m by (simp add: ToString_def parseFloat_digit)
qed

lemma parseFragmentSelector_square:
  "parseFragmentSelector ''((P10,20)(P10,40)(P30,40)(P30,20))''
       = [[Fin 10, Fin 20], [Fin 10, Fin 40], [Fin 30, Fin 40], [Fin 30, Fin 20]]"
proof -
  have s: "split '')('' (strip_outer ''((P10,20)(P10,40)(P30,40)(P30,20))'')
             = [''P10,20'', ''P10,40'', ''P30,40'', ''P30,20'']"
    by code_simp
  have c: "split '','' (remove1 CHR ''P'' ''P10,20'') = [''10'', ''20'']"
    "split '','' (remove1 CHR ''P'' ''P10,40'') = [''10'', ''40'']"
    "split '','' (remove1 CHR ''P'' ''P30,40'') = [''30'', ''40'']"
    "split '','' (remove1 CHR ''P'' ''P30,20'') = [''30'', ''20'']"
    by code_simp+
  show ?thesis
    unfolding parseFragmentSelector_def s by (simp only: list.map c Number_values)
qed

lemma more_plain_keys:
  "\<not> is_array_index ''__proto__''" "\<not> is_array_index ''toString''" "\<not> is_array_index ''page''"
  by (simp_all add: is_array_index_def is_digit_def)

lemma show_nat_0: "show_nat 0 = ''0''"
  by code_simp

lemmas store_defs = ensure_def dict_get_def lookup_def dict_set_def alloc_def set_prop_def get_prop_def
  object_at_def initial_store_def prototype_methods_def empty_object_def inherited_def

text \<open>
  C5, on the code.  The image collection has the id \<open>toString\<close>, which the audio
  collection does not have; the audio collection has the id \<open>__proto__\<close>.  The first pass
  reads \<open>mapping["__proto__"]\<close>, which is \<open>Object.prototype\<close>, and writes the time range
  onto it.  In the second pass the guard finds, under \<open>toString\<close>, the function
  \<open>Object.prototype.toString\<close>, and on it the inherited \<open>audio\<close>: \<open>mapping\<close> acquires the
  own key \<open>toString\<close>, the note partition has a segment for it, and the document has a
  highlight for it.
\<close>

theorem join_inherited_name:
  "(case join
          \<lparr>serviceToCanvasId = [(''img'', ''page'')],
          vault = [(''page'', \<lparr>canvas_id = ''page'', canvas_width = Fin 100, canvas_height = Fin 200\<rparr>)],
          text_of = t\<rparr>
          [(''__proto__'', One \<lparr>body_source = Some ''snd'', selector_type = Some ''FragmentSelector'',
                              selector_value = Some ''t=1,2''\<rparr>)]
          [(''toString'', One \<lparr>body_source = Some ''img'', selector_type = Some ''FragmentSelector'',
                             selector_value = Some ''((P10,20)(P10,40)(P30,40)(P30,20))''\<rparr>)] of
      Inl e \<Rightarrow> False
    | Inr st \<Rightarrow>
        js_mapping st = [(''toString'', Ref 9)]
      \<and> obj_content (object_at (js_store st) 9) = Native ''toString''
      \<and> obj_props (object_at (js_store st) 0) = [(''audio'', Ref 12)]
      \<and> note_records st
          = [(''toString'',
              \<lparr>audio = Some \<lparr>t_start = Fin 1, t_end = Fin 2\<rparr>, imageId = Some ''img'',
                 canvasId = Some ''page'', svgPoints = Some [[Fin 10, Fin 20], [Fin 10, Fin 40], [Fin 30, Fin 40], [Fin 30, Fin 20]],
                 svgSelector = Some \<lparr>svg_width = Fin 100, svg_height = Fin 200, svg_el = ''polygon'',
                    svg_points = [[Fin 10, Fin 20], [Fin 10, Fin 40], [Fin 30, Fin 40], [Fin 30, Fin 20]]\<rparr>,
                 minMax = Some ''page''\<rparr>)]
      \<and> orderAnnotationMapping (note_records st)
          = Inr [\<lparr>seg_id = ''toString'', seg_start = Fin 1, seg_end = Fin 2\<rparr>])
   \<and> generate_manifest
          \<lparr>serviceToCanvasId = [(''img'', ''page'')],
          vault = [(''page'', \<lparr>canvas_id = ''page'', canvas_width = Fin 100, canvas_height = Fin 200\<rparr>)],
          text_of = t\<rparr>
          [(''page'', ''img'')]
          [(''img'', \<lparr>res_id = ''img/full'', res_width = Fin 100, res_height = Fin 200\<rparr>)]
          [(''__proto__'', One \<lparr>body_source = Some ''snd'', selector_type = Some ''FragmentSelector'',
                              selector_value = Some ''t=1,2''\<rparr>)]
          [(''toString'', One \<lparr>body_source = Some ''img'', selector_type = Some ''FragmentSelector'',
                             selector_value = Some ''((P10,20)(P10,40)(P30,40)(P30,20))''\<rparr>)]
          \<lparr>ac_id = ''canvas'', ac_duration = Fin 3,
            ac_items = [\<lparr>page_id = ''p'',
                          page_items = [\<lparr>anno_id = ''a'',
                                          body = Some \<lparr>body_id = Some ''snd'',
                                                        format = Some ''audio/mp4'',
                                                        body_type = Some ''Audio''\<rparr>\<rparr>]\<rparr>]\<rparr>
     = Inr \<lparr>man_id = ''https://example.org'',
            man_label = ''Combined manifest 1'',
            man_canvas_id = ''canvas'',
            man_canvas_label = ''Canvas 1'',
            man_duration = Fin 3,
            man_width = Fin 100,
            man_height = Fin 200,
            man_page_id = ''p'',
            man_items =
              [Audio \<lparr>anno_id = ''a'',
                       body = Some \<lparr>body_id = Some ''snd'', format = Some ''audio/mpeg'',
                                     body_type = Some ''Sound''\<rparr>\<rparr>,
               Painting \<lparr>pa_id = ''https://example/image-anno/0'',
                          pa_motivation = ''painting'',
                          pa_body = [Own \<lparr>res_id = ''img/full'', res_width = Fin 100,
                                            res_height = Fin 200\<rparr>],
                          pa_canvas = ''canvas'',
                          pa_width = Num (Fin 100),
                          pa_height = Num (Fin 200),
                          pa_start = Fin 1,
                          pa_end = Fin 2\<rparr>],
            man_annotations_id = ''https://example/image-anno/0'',
            man_annotations = 
              [\<lparr>hl_id = ''https://example/image-anno/toString'',
                 hl_motivation = ''highlighting'',
                 hl_source = ''p'',
                 hl_svgSelector = Some \<lparr>svg_width = Fin 100, svg_height = Fin 200, svg_el = ''polygon'',
                    svg_points = [[Fin 10, Fin 20], [Fin 10, Fin 40], [Fin 30, Fin 40], [Fin 30, Fin 20]]\<rparr>,
                 hl_start = Fin 1,
                 hl_end = Fin 2\<rparr>]\<rparr>"
proof -
  let ?E = "\<lparr>serviceToCanvasId = [(''img'', ''page'')],
          vault = [(''page'', \<lparr>canvas_id = ''page'', canvas_width = Fin 100, canvas_height = Fin 200\<rparr>)],
          text_of = t\<rparr>"
  let ?A = "[(''__proto__'', One \<lparr>body_source = Some ''snd'', selector_type = Some ''FragmentSelector'',
                              selector_value = Some ''t=1,2''\<rparr>)]"
  let ?I = "[(''toString'', One \<lparr>body_source = Some ''img'', selector_type = Some ''FragmentSelector'',
                             selector_value = Some ''((P10,20)(P10,40)(P30,40)(P30,20))''\<rparr>)]"
  let ?S = "\<lparr>js_store =
      [\<lparr>obj_content = Plain, obj_props = [(''audio'', Ref 12)]\<rparr>,
       \<lparr>obj_content = Native ''constructor'', obj_props = []\<rparr>,
       \<lparr>obj_content = Native ''__defineGetter__'', obj_props = []\<rparr>,
       \<lparr>obj_content = Native ''__defineSetter__'', obj_props = []\<rparr>,
       \<lparr>obj_content = Native ''hasOwnProperty'', obj_props = []\<rparr>,
       \<lparr>obj_content = Native ''__lookupGetter__'', obj_props = []\<rparr>,
       \<lparr>obj_content = Native ''__lookupSetter__'', obj_props = []\<rparr>,
       \<lparr>obj_content = Native ''isPrototypeOf'', obj_props = []\<rparr>,
       \<lparr>obj_content = Native ''propertyIsEnumerable'', obj_props = []\<rparr>,
       \<lparr>obj_content = Native ''toString'',
          obj_props = [(''imageId'', Str ''img''), (''canvasId'', Str ''page''),
                       (''svgPoints'', Ref 13), (''svgSelector'', Ref 15), (''minMax'', Ref 14)]\<rparr>,
       \<lparr>obj_content = Native ''valueOf'', obj_props = []\<rparr>,
       \<lparr>obj_content = Native ''toLocaleString'', obj_props = []\<rparr>,
       \<lparr>obj_content = Plain, obj_props = [(''start'', Num (Fin 1)), (''end'', Num (Fin 2))]\<rparr>,
       \<lparr>obj_content = Points [[Fin 10, Fin 20], [Fin 10, Fin 40], [Fin 30, Fin 40], [Fin 30, Fin 20]],
          obj_props = []\<rparr>,
       \<lparr>obj_content = Plain, obj_props = [(''min'', Num (Fin 1)), (''max'', Num (Fin 2))]\<rparr>,
       \<lparr>obj_content = Selector \<lparr>svg_width = Fin 100, svg_height = Fin 200, svg_el = ''polygon'',
                    svg_points = [[Fin 10, Fin 20], [Fin 10, Fin 40], [Fin 30, Fin 40], [Fin 30, Fin 20]]\<rparr>,
          obj_props = []\<rparr>],
     js_mapping = [(''toString'', Ref 9)],
     js_canvasMinMax = [(''page'', Ref 14)]\<rparr>"
  have a: "audio_pass \<lparr>js_store = initial_store, js_mapping = [], js_canvasMinMax = []\<rparr>
             (Object_entries ?A)
      = Inr \<lparr>js_store = (initial_store @ [time_object \<lparr>t_start = Fin 1, t_end = Fin 2\<rparr>])
                 [0 := \<lparr>obj_content = Plain, obj_props = [(''audio'', Ref 12)]\<rparr>],
             js_mapping = [], js_canvasMinMax = []\<rparr>"
    by (simp add: Object_entries_plain more_plain_keys annotationList_def accepted_def
        store_defs getTime_1_2)
  have j: "join ?E ?A ?I = Inr ?S"
    unfolding join_def a
    by (simp add: Object_entries_plain more_plain_keys annotationList_def accepted_def
        store_defs time_object_def image_body_def ToString_def service_canvas_def vault_get_def
        parseFragmentSelector_square Math_min_def Math_max_def points_of_def toSvg_def Let_def)
  have r: "note_records ?S = [(''toString'',
              \<lparr>audio = Some \<lparr>t_start = Fin 1, t_end = Fin 2\<rparr>, imageId = Some ''img'',
                 canvasId = Some ''page'', svgPoints = Some [[Fin 10, Fin 20], [Fin 10, Fin 40], [Fin 30, Fin 40], [Fin 30, Fin 20]],
                 svgSelector = Some \<lparr>svg_width = Fin 100, svg_height = Fin 200, svg_el = ''polygon'',
                    svg_points = [[Fin 10, Fin 20], [Fin 10, Fin 40], [Fin 30, Fin 40], [Fin 30, Fin 20]]\<rparr>,
                 minMax = Some ''page''\<rparr>)]"
    by (simp add: note_records_def note_record_def read_prop_def get_prop_def object_at_def
        inherited_def prototype_methods_def points_of_def selector_of_def)
  have p: "page_ranges ?S = [(''page'', \<lparr>mm_min = Fin 1, mm_max = Fin 2\<rparr>)]"
    by (simp add: page_ranges_def read_prop_def get_prop_def object_at_def)
  have oc: "orderCanvasMapping [(''page'', \<lparr>mm_min = Fin 1, mm_max = Fin 2\<rparr>)]
     = Inr [\<lparr>seg_id = ''page'', seg_start = Fin 1, seg_end = Fin 2\<rparr>]"
    by (subst orderCanvasMapping_sorted(1)) (simp_all add: more_plain_keys orderable_def segments_def)
  have "note_entries [(''toString'',
              \<lparr>audio = Some \<lparr>t_start = Fin 1, t_end = Fin 2\<rparr>, imageId = Some ''img'',
                 canvasId = Some ''page'', svgPoints = Some [[Fin 10, Fin 20], [Fin 10, Fin 40], [Fin 30, Fin 40], [Fin 30, Fin 20]],
                 svgSelector = Some \<lparr>svg_width = Fin 100, svg_height = Fin 200, svg_el = ''polygon'',
                    svg_points = [[Fin 10, Fin 20], [Fin 10, Fin 40], [Fin 30, Fin 40], [Fin 30, Fin 20]]\<rparr>,
                 minMax = Some ''page''\<rparr>)]
      = [\<lparr>entry_id = ''toString'', originalMin = Fin 1, originalMax = Fin 2\<rparr>]"
    by (simp add: note_entries_def Object_entries_plain more_plain_keys List.map_filter_simps)
  then have oa: "orderAnnotationMapping [(''toString'',
              \<lparr>audio = Some \<lparr>t_start = Fin 1, t_end = Fin 2\<rparr>, imageId = Some ''img'',
                 canvasId = Some ''page'', svgPoints = Some [[Fin 10, Fin 20], [Fin 10, Fin 40], [Fin 30, Fin 40], [Fin 30, Fin 20]],
                 svgSelector = Some \<lparr>svg_width = Fin 100, svg_height = Fin 200, svg_el = ''polygon'',
                    svg_points = [[Fin 10, Fin 20], [Fin 10, Fin 40], [Fin 30, Fin 40], [Fin 30, Fin 20]]\<rparr>,
                 minMax = Some ''page''\<rparr>)]
     = Inr [\<lparr>seg_id = ''toString'', seg_start = Fin 1, seg_end = Fin 2\<rparr>]"
    unfolding orderAnnotationMapping_def
    by (simp add: reconcile_sorted orderable_def segments_def)
  have 1: "(case join
          \<lparr>serviceToCanvasId = [(''img'', ''page'')],
          vault = [(''page'', \<lparr>canvas_id = ''page'', canvas_width = Fin 100, canvas_height = Fin 200\<rparr>)],
          text_of = t\<rparr>
          [(''__proto__'', One \<lparr>body_source = Some ''snd'', selector_type = Some ''FragmentSelector'',
                              selector_value = Some ''t=1,2''\<rparr>)]
          [(''toString'', One \<lparr>body_source = Some ''img'', selector_type = Some ''FragmentSelector'',
                             selector_value = Some ''((P10,20)(P10,40)(P30,40)(P30,20))''\<rparr>)] of
      Inl e \<Rightarrow> False
    | Inr st \<Rightarrow>
        js_mapping st = [(''toString'', Ref 9)]
      \<and> obj_content (object_at (js_store st) 9) = Native ''toString''
      \<and> obj_props (object_at (js_store st) 0) = [(''audio'', Ref 12)]
      \<and> note_records st
          = [(''toString'',
              \<lparr>audio = Some \<lparr>t_start = Fin 1, t_end = Fin 2\<rparr>, imageId = Some ''img'',
                 canvasId = Some ''page'', svgPoints = Some [[Fin 10, Fin 20], [Fin 10, Fin 40], [Fin 30, Fin 40], [Fin 30, Fin 20]],
                 svgSelector = Some \<lparr>svg_width = Fin 100, svg_height = Fin 200, svg_el = ''polygon'',
                    svg_points = [[Fin 10, Fin 20], [Fin 10, Fin 40], [Fin 30, Fin 40], [Fin 30, Fin 20]]\<rparr>,
                 minMax = Some ''page''\<rparr>)]
      \<and> orderAnnotationMapping (note_records st)
          = Inr [\<lparr>seg_id = ''toString'', seg_start = Fin 1, seg_end = Fin 2\<rparr>])"
    unfolding j sum.case r oa by (simp add: object_at_def)
  have 2: "generate_manifest
          \<lparr>serviceToCanvasId = [(''img'', ''page'')],
          vault = [(''page'', \<lparr>canvas_id = ''page'', canvas_width = Fin 100, canvas_height = Fin 200\<rparr>)],
          text_of = t\<rparr>
          [(''page'', ''img'')]
          [(''img'', \<lparr>res_id = ''img/full'', res_width = Fin 100, res_height = Fin 200\<rparr>)]
          [(''__proto__'', One \<lparr>body_source = Some ''snd'', selector_type = Some ''FragmentSelector'',
                              selector_value = Some ''t=1,2''\<rparr>)]
          [(''toString'', One \<lparr>body_source = Some ''img'', selector_type = Some ''FragmentSelector'',
                             selector_value = Some ''((P10,20)(P10,40)(P30,40)(P30,20))''\<rparr>)]
          \<lparr>ac_id = ''canvas'', ac_duration = Fin 3,
            ac_items = [\<lparr>page_id = ''p'',
                          page_items = [\<lparr>anno_id = ''a'',
                                          body = Some \<lparr>body_id = Some ''snd'',
                                                        format = Some ''audio/mp4'',
                                                        body_type = Some ''Audio''\<rparr>\<rparr>]\<rparr>]\<rparr>
     = Inr \<lparr>man_id = ''https://example.org'',
            man_label = ''Combined manifest 1'',
            man_canvas_id = ''canvas'',
            man_canvas_label = ''Canvas 1'',
            man_duration = Fin 3,
            man_width = Fin 100,
            man_height = Fin 200,
            man_page_id = ''p'',
            man_items =
              [Audio \<lparr>anno_id = ''a'',
                       body = Some \<lparr>body_id = Some ''snd'', format = Some ''audio/mpeg'',
                                     body_type = Some ''Sound''\<rparr>\<rparr>,
               Painting \<lparr>pa_id = ''https://example/image-anno/0'',
                          pa_motivation = ''painting'',
                          pa_body = [Own \<lparr>res_id = ''img/full'', res_width = Fin 100,
                                            res_height = Fin 200\<rparr>],
                          pa_canvas = ''canvas'',
                          pa_width = Num (Fin 100),
                          pa_height = Num (Fin 200),
                          pa_start = Fin 1,
                          pa_end = Fin 2\<rparr>],
            man_annotations_id = ''https://example/image-anno/0'',
            man_annotations = 
              [\<lparr>hl_id = ''https://example/image-anno/toString'',
                 hl_motivation = ''highlighting'',
                 hl_source = ''p'',
                 hl_svgSelector = Some \<lparr>svg_width = Fin 100, svg_height = Fin 200, svg_el = ''polygon'',
                    svg_points = [[Fin 10, Fin 20], [Fin 10, Fin 40], [Fin 30, Fin 40], [Fin 30, Fin 20]]\<rparr>,
                 hl_start = Fin 1,
                 hl_end = Fin 2\<rparr>]\<rparr>"
    unfolding generate_manifest_def j sum.case p oc r oa
    by (simp add: newManifest_def resource_of_def lookup_def dimension_def ToPropertyKey_def
        Math_max_def fixAudio_def show_nat_0 dict_get_def get_prop_def object_at_def
        selector_of_def del: show_nat.simps)
  from 1 2 show ?thesis by (rule conjI)
qed

section \<open>The effect of the assembler on its inputs\<close>

lemma fixAudio_Inr:
  "fixAudio a = Inr fixed \<Longrightarrow>
     \<exists>b. body a = Some b
        \<and> fixed = a\<lparr>body := Some (b\<lparr>format := Some ''audio/mpeg'', body_type := Some ''Sound''\<rparr>)\<rparr>"
  by (auto simp: fixAudio_def split: option.splits)

text \<open>
  C9, as the code has it.  When the assembler returns the document, the two partitions,
  the two tables, \<open>mapping\<close> and its records are as they were, and so is the audio canvas
  but for one object: the body of the first annotation of its first page, whose \<open>format\<close>
  and \<open>type\<close> are now \<open>audio/mpeg\<close> and \<open>Sound\<close>.  \<open>fixAudio\<close> assigns to the object it is
  given and returns it.
\<close>

theorem newManifest_frame:
  assumes "newManifest env inp = Inr (manifest, inp')"
  shows "orderedCanvases inp' = orderedCanvases inp
    \<and> filteredAnnotationMapping inp' = filteredAnnotationMapping inp
    \<and> canvasToServiceId inp' = canvasToServiceId inp
    \<and> resourceMap inp' = resourceMap inp
    \<and> mapping inp' = mapping inp
    \<and> store inp' = store inp
    \<and> ac_id (audioCanvas inp') = ac_id (audioCanvas inp)
    \<and> ac_duration (audioCanvas inp') = ac_duration (audioCanvas inp)
    \<and> (\<exists>page pages anno annos b.
          ac_items (audioCanvas inp) = page # pages
        \<and> page_items page = anno # annos
        \<and> body anno = Some b
        \<and> ac_items (audioCanvas inp')
            = page\<lparr>page_items :=
                     anno\<lparr>body := Some (b\<lparr>format := Some ''audio/mpeg'',
                                            body_type := Some ''Sound''\<rparr>)\<rparr> # annos\<rparr> # pages)"
proof -
  from assms obtain page pages where p: "ac_items (audioCanvas inp) = page # pages"
    by (cases "ac_items (audioCanvas inp)")
       (auto simp: newManifest_def split: sum.splits prod.splits)
  from assms p obtain anno annos where a: "page_items page = anno # annos"
    by (cases "page_items page")
       (auto simp: newManifest_def split: sum.splits prod.splits)
  from assms p a obtain fixed where f: "fixAudio anno = Inr fixed"
    by (cases "fixAudio anno")
       (auto simp: newManifest_def split: sum.splits prod.splits)
  from fixAudio_Inr[OF f] obtain b where b: "body anno = Some b"
    "fixed = anno\<lparr>body := Some (b\<lparr>format := Some ''audio/mpeg'', body_type := Some ''Sound''\<rparr>)\<rparr>"
    by blast
  have i: "inp' = inp\<lparr>audioCanvas := (audioCanvas inp)
              \<lparr>ac_items := page\<lparr>page_items := fixed # annos\<rparr> # pages\<rparr>\<rparr>"
    using assms p a f
    by (auto simp: newManifest_def Let_def split: sum.splits prod.splits)
  show ?thesis
    unfolding i using p a b by simp
qed

text \<open>
  An audio canvas whose annotation already has the format \<open>audio/mpeg\<close> and the type
  \<open>Sound\<close>, with one page and no note: the inputs are returned as they were.
\<close>

theorem newManifest_frame_witness:
  "newManifest
      \<lparr>serviceToCanvasId = [(''img'', ''page'')],
          vault = [(''page'', \<lparr>canvas_id = ''page'', canvas_width = Fin 100, canvas_height = Fin 200\<rparr>)],
          text_of = (\<lambda>h v. ''[object Object]'')\<rparr>
      \<lparr>audioCanvas =
           \<lparr>ac_id = ''canvas'', ac_duration = Fin 3,
            ac_items = [\<lparr>page_id = ''p'',
                          page_items = [\<lparr>anno_id = ''a'',
                                          body = Some \<lparr>body_id = Some ''snd'',
                                                        format = Some ''audio/mpeg'',
                                                        body_type = Some ''Sound''\<rparr>\<rparr>]\<rparr>]\<rparr>,
         orderedCanvases = [\<lparr>seg_id = ''page'', seg_start = Fin 1, seg_end = Fin 2\<rparr>],
         filteredAnnotationMapping = [],
         canvasToServiceId = [(''page'', ''img'')],
         resourceMap = [(''img'', \<lparr>res_id = ''img/full'', res_width = Fin 100, res_height = Fin 200\<rparr>)],
         mapping = [],
         store = initial_store\<rparr>
    = Inr (\<lparr>man_id = ''https://example.org'',
            man_label = ''Combined manifest 1'',
            man_canvas_id = ''canvas'',
            man_canvas_label = ''Canvas 1'',
            man_duration = Fin 3,
            man_width = Fin 100,
            man_height = Fin 200,
            man_page_id = ''p'',
            man_items =
              [Audio \<lparr>anno_id = ''a'',
                       body = Some \<lparr>body_id = Some ''snd'', format = Some ''audio/mpeg'',
                                     body_type = Some ''Sound''\<rparr>\<rparr>,
               Painting \<lparr>pa_id = ''https://example/image-anno/0'',
                          pa_motivation = ''painting'',
                          pa_body = [Own \<lparr>res_id = ''img/full'', res_width = Fin 100,
                                            res_height = Fin 200\<rparr>],
                          pa_canvas = ''canvas'',
                          pa_width = Num (Fin 100),
                          pa_height = Num (Fin 200),
                          pa_start = Fin 1,
                          pa_end = Fin 2\<rparr>],
            man_annotations_id = ''https://example/image-anno/0'',
            man_annotations = []\<rparr>,
           \<lparr>audioCanvas =
           \<lparr>ac_id = ''canvas'', ac_duration = Fin 3,
            ac_items = [\<lparr>page_id = ''p'',
                          page_items = [\<lparr>anno_id = ''a'',
                                          body = Some \<lparr>body_id = Some ''snd'',
                                                        format = Some ''audio/mpeg'',
                                                        body_type = Some ''Sound''\<rparr>\<rparr>]\<rparr>]\<rparr>,
         orderedCanvases = [\<lparr>seg_id = ''page'', seg_start = Fin 1, seg_end = Fin 2\<rparr>],
         filteredAnnotationMapping = [],
         canvasToServiceId = [(''page'', ''img'')],
         resourceMap = [(''img'', \<lparr>res_id = ''img/full'', res_width = Fin 100, res_height = Fin 200\<rparr>)],
         mapping = [],
         store = initial_store\<rparr>)
   \<and> ac_items (audioCanvas
      \<lparr>audioCanvas =
           \<lparr>ac_id = ''canvas'', ac_duration = Fin 3,
            ac_items = [\<lparr>page_id = ''p'',
                          page_items = [\<lparr>anno_id = ''a'',
                                          body = Some \<lparr>body_id = Some ''snd'',
                                                        format = Some ''audio/mpeg'',
                                                        body_type = Some ''Sound''\<rparr>\<rparr>]\<rparr>]\<rparr>,
         orderedCanvases = [\<lparr>seg_id = ''page'', seg_start = Fin 1, seg_end = Fin 2\<rparr>],
         filteredAnnotationMapping = [],
         canvasToServiceId = [(''page'', ''img'')],
         resourceMap = [(''img'', \<lparr>res_id = ''img/full'', res_width = Fin 100, res_height = Fin 200\<rparr>)],
         mapping = [],
         store = initial_store\<rparr>)
     = [\<lparr>page_id = ''p'',
          page_items = [\<lparr>anno_id = ''a'',
                          body = Some \<lparr>body_id = Some ''snd'', format = Some ''audio/mpeg'',
                                        body_type = Some ''Sound''\<rparr>\<rparr>]\<rparr>]"
proof -
  let ?E = "\<lparr>serviceToCanvasId = [(''img'', ''page'')],
          vault = [(''page'', \<lparr>canvas_id = ''page'', canvas_width = Fin 100, canvas_height = Fin 200\<rparr>)],
          text_of = (\<lambda>h v. ''[object Object]'')\<rparr>"
  let ?inp = "\<lparr>audioCanvas =
           \<lparr>ac_id = ''canvas'', ac_duration = Fin 3,
            ac_items = [\<lparr>page_id = ''p'',
                          page_items = [\<lparr>anno_id = ''a'',
                                          body = Some \<lparr>body_id = Some ''snd'',
                                                        format = Some ''audio/mpeg'',
                                                        body_type = Some ''Sound''\<rparr>\<rparr>]\<rparr>]\<rparr>,
         orderedCanvases = [\<lparr>seg_id = ''page'', seg_start = Fin 1, seg_end = Fin 2\<rparr>],
         filteredAnnotationMapping = [],
         canvasToServiceId = [(''page'', ''img'')],
         resourceMap = [(''img'', \<lparr>res_id = ''img/full'', res_width = Fin 100, res_height = Fin 200\<rparr>)],
         mapping = [],
         store = initial_store\<rparr>"
  let ?M = "\<lparr>man_id = ''https://example.org'',
            man_label = ''Combined manifest 1'',
            man_canvas_id = ''canvas'',
            man_canvas_label = ''Canvas 1'',
            man_duration = Fin 3,
            man_width = Fin 100,
            man_height = Fin 200,
            man_page_id = ''p'',
            man_items =
              [Audio \<lparr>anno_id = ''a'',
                       body = Some \<lparr>body_id = Some ''snd'', format = Some ''audio/mpeg'',
                                     body_type = Some ''Sound''\<rparr>\<rparr>,
               Painting \<lparr>pa_id = ''https://example/image-anno/0'',
                          pa_motivation = ''painting'',
                          pa_body = [Own \<lparr>res_id = ''img/full'', res_width = Fin 100,
                                            res_height = Fin 200\<rparr>],
                          pa_canvas = ''canvas'',
                          pa_width = Num (Fin 100),
                          pa_height = Num (Fin 200),
                          pa_start = Fin 1,
                          pa_end = Fin 2\<rparr>],
            man_annotations_id = ''https://example/image-anno/0'',
            man_annotations = []\<rparr>"
  have h: "newManifest ?E ?inp = Inr (?M, ?inp)"
    by (simp add: newManifest_def resource_of_def lookup_def dimension_def ToPropertyKey_def
        Math_max_def fixAudio_def show_nat_0 del: show_nat.simps)
  from newManifest_frame[OF h] h show ?thesis by simp
qed

text \<open>
  The same inputs with the format \<open>audio/mp4\<close> and the type \<open>Audio\<close>: the assembler
  returns the document, and the audio canvas it was given now holds \<open>audio/mpeg\<close> and
  \<open>Sound\<close>.
\<close>

theorem newManifest_frame_counterexample:
  "newManifest
      \<lparr>serviceToCanvasId = [(''img'', ''page'')],
          vault = [(''page'', \<lparr>canvas_id = ''page'', canvas_width = Fin 100, canvas_height = Fin 200\<rparr>)],
          text_of = (\<lambda>h v. ''[object Object]'')\<rparr>
      \<lparr>audioCanvas =
           \<lparr>ac_id = ''canvas'', ac_duration = Fin 3,
            ac_items = [\<lparr>page_id = ''p'',
                          page_items = [\<lparr>anno_id = ''a'',
                                          body = Some \<lparr>body_id = Some ''snd'',
                                                        format = Some ''audio/mp4'',
                                                        body_type = Some ''Audio''\<rparr>\<rparr>]\<rparr>]\<rparr>,
         orderedCanvases = [\<lparr>seg_id = ''page'', seg_start = Fin 1, seg_end = Fin 2\<rparr>],
         filteredAnnotationMapping = [],
         canvasToServiceId = [(''page'', ''img'')],
         resourceMap = [(''img'', \<lparr>res_id = ''img/full'', res_width = Fin 100, res_height = Fin 200\<rparr>)],
         mapping = [],
         store = initial_store\<rparr>
    = Inr (\<lparr>man_id = ''https://example.org'',
            man_label = ''Combined manifest 1'',
            man_canvas_id = ''canvas'',
            man_canvas_label = ''Canvas 1'',
            man_duration = Fin 3,
            man_width = Fin 100,
            man_height = Fin 200,
            man_page_id = ''p'',
            man_items =
              [Audio \<lparr>anno_id = ''a'',
                       body = Some \<lparr>body_id = Some ''snd'', format = Some ''audio/mpeg'',
                                     body_type = Some ''Sound''\<rparr>\<rparr>,
               Painting \<lparr>pa_id = ''https://example/image-anno/0'',
                          pa_motivation = ''painting'',
                          pa_body = [Own \<lparr>res_id = ''img/full'', res_width = Fin 100,
                                            res_height = Fin 200\<rparr>],
                          pa_canvas = ''canvas'',
                          pa_width = Num (Fin 100),
                          pa_height = Num (Fin 200),
                          pa_start = Fin 1,
                          pa_end = Fin 2\<rparr>],
            man_annotations_id = ''https://example/image-anno/0'',
            man_annotations = []\<rparr>,
           \<lparr>audioCanvas =
           \<lparr>ac_id = ''canvas'', ac_duration = Fin 3,
            ac_items = [\<lparr>page_id = ''p'',
                          page_items = [\<lparr>anno_id = ''a'',
                                          body = Some \<lparr>body_id = Some ''snd'',
                                                        format = Some ''audio/mpeg'',
                                                        body_type = Some ''Sound''\<rparr>\<rparr>]\<rparr>]\<rparr>,
         orderedCanvases = [\<lparr>seg_id = ''page'', seg_start = Fin 1, seg_end = Fin 2\<rparr>],
         filteredAnnotationMapping = [],
         canvasToServiceId = [(''page'', ''img'')],
         resourceMap = [(''img'', \<lparr>res_id = ''img/full'', res_width = Fin 100, res_height = Fin 200\<rparr>)],
         mapping = [],
         store = initial_store\<rparr>)
   \<and> \<lparr>audioCanvas =
           \<lparr>ac_id = ''canvas'', ac_duration = Fin 3,
            ac_items = [\<lparr>page_id = ''p'',
                          page_items = [\<lparr>anno_id = ''a'',
                                          body = Some \<lparr>body_id = Some ''snd'',
                                                        format = Some ''audio/mpeg'',
                                                        body_type = Some ''Sound''\<rparr>\<rparr>]\<rparr>]\<rparr>,
         orderedCanvases = [\<lparr>seg_id = ''page'', seg_start = Fin 1, seg_end = Fin 2\<rparr>],
         filteredAnnotationMapping = [],
         canvasToServiceId = [(''page'', ''img'')],
         resourceMap = [(''img'', \<lparr>res_id = ''img/full'', res_width = Fin 100, res_height = Fin 200\<rparr>)],
         mapping = [],
         store = initial_store\<rparr>
     \<noteq> \<lparr>audioCanvas =
           \<lparr>ac_id = ''canvas'', ac_duration = Fin 3,
            ac_items = [\<lparr>page_id = ''p'',
                          page_items = [\<lparr>anno_id = ''a'',
                                          body = Some \<lparr>body_id = Some ''snd'',
                                                        format = Some ''audio/mp4'',
                                                        body_type = Some ''Audio''\<rparr>\<rparr>]\<rparr>]\<rparr>,
         orderedCanvases = [\<lparr>seg_id = ''page'', seg_start = Fin 1, seg_end = Fin 2\<rparr>],
         filteredAnnotationMapping = [],
         canvasToServiceId = [(''page'', ''img'')],
         resourceMap = [(''img'', \<lparr>res_id = ''img/full'', res_width = Fin 100, res_height = Fin 200\<rparr>)],
         mapping = [],
         store = initial_store\<rparr>"
  by (simp add: newManifest_def resource_of_def lookup_def dimension_def ToPropertyKey_def
        Math_max_def fixAudio_def show_nat_0 del: show_nat.simps)

end
